theory Spec2Isabelle
  imports Complex_Main "HOL-Library.Multiset"
begin

section \<open>JavaScript values as the services read them\<close>

text \<open>
  A property of a JavaScript object is absent (reads as \<open>undefined\<close>), \<open>null\<close>, or
  holds a value. The services test such properties for truthiness (\<open>a || b\<close>,
  \<open>if (a)\<close>, \<open>!a\<close>) and compare them with \<open>===\<close>; on values of one type
  \<open>===\<close> is equality of the \<open>field\<close> values below (\<open>undefined === null\<close> is
  false). Numbers are identifiers, quantities and prices, which the modelled code only
  copies and tests, never computes with.
\<close>

datatype 'a field = Undefined | Null | Val 'a

fun truthyN :: "'a::zero field \<Rightarrow> bool" where
  "truthyN (Val n) = (n \<noteq> 0)"
| "truthyN _ = False"

fun truthyS :: "string field \<Rightarrow> bool" where
  "truthyS (Val s) = (s \<noteq> [])"
| "truthyS _ = False"

definition orN :: "'a::zero field \<Rightarrow> 'a field \<Rightarrow> 'a field" where
  "orN a b = (if truthyN a then a else b)"

definition orS :: "string field \<Rightarrow> string field \<Rightarrow> string field" where
  "orS a b = (if truthyS a then a else b)"

section \<open>Orders and positions\<close>

record order =
  id' :: "nat field"
  orderId :: "nat field"
  linkedId :: "nat field"
  parentId :: "nat field"
  ocoId :: "nat field"
  orderType :: "string field"
  text' :: "string field"
  action :: "string field"
  ordStatus :: "string field"
  status :: "string field"
  orderQty :: "rat field"
  price :: "rat field"
  limitPrice :: "rat field"
  stopPrice :: "rat field"
  workingPrice :: "rat field"

record position =
  netPos :: "int field"

definition blankOrder :: order where
  "blankOrder = \<lparr> id' = Undefined, orderId = Undefined, linkedId = Undefined,
     parentId = Undefined, ocoId = Undefined, orderType = Undefined, text' = Undefined,
     action = Undefined, ordStatus = Undefined, status = Undefined, orderQty = Undefined,
     price = Undefined, limitPrice = Undefined, stopPrice = Undefined,
     workingPrice = Undefined \<rparr>"

section \<open>DataCache (services/dataCache.js)\<close>

type_synonym accountId = nat

datatype mode = IDLE | ACTIVE | CRITICAL

datatype reason =
    InitialState
  | NoTradingActivity
  | HighActivity nat nat
  | ActiveTrading nat nat
  | RateLimitProtection
  | AutoRevert
  | UserReason string

record positions_row =
  positions_data :: "position list"
  p_last_updated :: nat
  open_positions_count :: nat

record orders_row =
  orders_data :: "order list"
  o_last_updated :: nat
  working_orders_count :: nat

record polling_row =
  current_mode :: mode
  last_mode_change :: nat
  mode_change_reason :: reason
  last_poll_timestamp :: nat

text \<open>
  The SQLite tables, one row per account (\<open>INSERT OR REPLACE\<close> on the primary key),
  as maps. \<open>Date.now()\<close> is the argument \<open>now\<close> of every operation that reads the
  clock. The JSON round trip of a payload keeps every property that is not
  \<open>undefined\<close>, so a payload is read back as it was written. Of a row of
  \<open>accounts_cache\<close> and of \<open>account_balances\<close> only \<open>last_updated\<close> is kept: no
  operation below reads their payload.

  \<open>account_balances\<close>, \<open>positions_cache\<close>, \<open>orders_cache\<close> and \<open>polling_state\<close> are
  declared with \<open>FOREIGN KEY (account_id) REFERENCES accounts_cache (account_id)\<close>, and
  better-sqlite3 opens the database with foreign keys enforced: a write of a row
  for an account that has no row in \<open>accounts_cache\<close> fails, the statement throws
  \<open>SQLITE_CONSTRAINT_FOREIGNKEY\<close> and nothing is stored. Only \<open>cacheAccountData\<close>
  catches what its statement throws; the other writers let it through, which is
  the result \<open>Inl\<close> here.
\<close>

datatype dbError = ForeignKeyConstraint

record dataCache =
  isInitialized :: bool
  accounts_cache :: "accountId \<rightharpoonup> nat"
  account_balances :: "accountId \<rightharpoonup> nat"
  positions_cache :: "accountId \<rightharpoonup> positions_row"
  orders_cache :: "accountId \<rightharpoonup> orders_row"
  polling_state :: "accountId \<rightharpoonup> polling_row"

definition newDataCache :: dataCache where
  "newDataCache = \<lparr> isInitialized = False, accounts_cache = Map.empty,
     account_balances = Map.empty, positions_cache = Map.empty,
     orders_cache = Map.empty, polling_state = Map.empty \<rparr>"

definition initialize :: "dataCache \<Rightarrow> dataCache" where
  "initialize c = c\<lparr> isInitialized := True \<rparr>"

definition cacheAccountData :: "accountId \<Rightarrow> nat \<Rightarrow> dataCache \<Rightarrow> dataCache" where
  "cacheAccountData a now c =
     (if \<not> isInitialized c then c
      else c\<lparr> accounts_cache := (accounts_cache c)(a \<mapsto> now) \<rparr>)"

definition getCachedAccountData :: "accountId \<Rightarrow> dataCache \<Rightarrow> nat option" where
  "getCachedAccountData a c = (if \<not> isInitialized c then None else accounts_cache c a)"

definition cacheAccountBalance :: "accountId \<Rightarrow> nat \<Rightarrow> dataCache \<Rightarrow> dbError + dataCache" where
  "cacheAccountBalance a now c =
     (if \<not> isInitialized c then Inr c
      else if accounts_cache c a = None then Inl ForeignKeyConstraint
      else Inr (c\<lparr> account_balances := (account_balances c)(a \<mapsto> now) \<rparr>))"

definition cachePositions :: "accountId \<Rightarrow> position list \<Rightarrow> nat \<Rightarrow> dataCache \<Rightarrow> dbError + dataCache" where
  "cachePositions a positionsData now c =
     (if \<not> isInitialized c then Inr c
      else if accounts_cache c a = None then Inl ForeignKeyConstraint
      else Inr (c\<lparr> positions_cache := (positions_cache c)(a \<mapsto>
             \<lparr> positions_data = positionsData, p_last_updated = now,
               open_positions_count = length (filter (\<lambda>p. netPos p \<noteq> Val 0) positionsData) \<rparr>) \<rparr>))"

definition workingStatus :: "order \<Rightarrow> bool" where
  "workingStatus od = (orS (status od) (ordStatus od) = Val ''Working'')"

definition cacheOrders :: "accountId \<Rightarrow> order list \<Rightarrow> nat \<Rightarrow> dataCache \<Rightarrow> dbError + dataCache" where
  "cacheOrders a ordersData now c =
     (if \<not> isInitialized c then Inr c
      else if accounts_cache c a = None then Inl ForeignKeyConstraint
      else Inr (c\<lparr> orders_cache := (orders_cache c)(a \<mapsto>
             \<lparr> orders_data = ordersData, o_last_updated = now,
               working_orders_count = length (filter workingStatus ordersData) \<rparr>) \<rparr>))"

record cachedPositions =
  cp_data :: "position list"
  cp_lastUpdated :: nat
  cp_age :: int
  openPositionsCount :: nat

record cachedOrders =
  co_data :: "order list"
  co_lastUpdated :: nat
  co_age :: int
  workingOrdersCount :: nat

definition getCachedPositions :: "accountId \<Rightarrow> nat \<Rightarrow> dataCache \<Rightarrow> cachedPositions option" where
  "getCachedPositions a now c =
     (if \<not> isInitialized c then None
      else case positions_cache c a of
        None \<Rightarrow> None
      | Some r \<Rightarrow> Some \<lparr> cp_data = positions_data r, cp_lastUpdated = p_last_updated r,
                        cp_age = int now - int (p_last_updated r),
                        openPositionsCount = open_positions_count r \<rparr>)"

definition getCachedOrders :: "accountId \<Rightarrow> nat \<Rightarrow> dataCache \<Rightarrow> cachedOrders option" where
  "getCachedOrders a now c =
     (if \<not> isInitialized c then None
      else case orders_cache c a of
        None \<Rightarrow> None
      | Some r \<Rightarrow> Some \<lparr> co_data = orders_data r, co_lastUpdated = o_last_updated r,
                        co_age = int now - int (o_last_updated r),
                        workingOrdersCount = working_orders_count r \<rparr>)"

definition updatePollingState :: "accountId \<Rightarrow> mode \<Rightarrow> reason \<Rightarrow> nat \<Rightarrow> dataCache \<Rightarrow> dbError + dataCache" where
  "updatePollingState a m r now c =
     (if \<not> isInitialized c then Inr c
      else if accounts_cache c a = None then Inl ForeignKeyConstraint
      else Inr (c\<lparr> polling_state := (polling_state c)(a \<mapsto>
             \<lparr> current_mode = m, last_mode_change = now, mode_change_reason = r,
               last_poll_timestamp = now \<rparr>) \<rparr>))"

definition getPollingState :: "accountId \<Rightarrow> dataCache \<Rightarrow> polling_row option" where
  "getPollingState a c = (if \<not> isInitialized c then None else polling_state c a)"

record pollingInfo =
  pi_mode :: mode
  pi_reason :: reason
  pi_openPositions :: nat
  pi_workingOrders :: nat

text \<open>
  \<open>positions?.openPositionsCount || 0\<close>: a missing row and a count of zero both give 0.
\<close>

definition determinePollingMode :: "accountId \<Rightarrow> nat \<Rightarrow> dataCache \<Rightarrow> pollingInfo" where
  "determinePollingMode a now c =
     (let openPositions = (case getCachedPositions a now c of None \<Rightarrow> 0 | Some p \<Rightarrow> openPositionsCount p);
          workingOrders = (case getCachedOrders a now c of None \<Rightarrow> 0 | Some p \<Rightarrow> workingOrdersCount p)
      in if openPositions = 0 \<and> workingOrders = 0
         then \<lparr> pi_mode = IDLE, pi_reason = NoTradingActivity,
                pi_openPositions = openPositions, pi_workingOrders = workingOrders \<rparr>
         else if openPositions > 2 \<or> workingOrders > 3
         then \<lparr> pi_mode = CRITICAL, pi_reason = HighActivity openPositions workingOrders,
                pi_openPositions = openPositions, pi_workingOrders = workingOrders \<rparr>
         else \<lparr> pi_mode = ACTIVE, pi_reason = ActiveTrading openPositions workingOrders,
                pi_openPositions = openPositions, pi_workingOrders = workingOrders \<rparr>)"

section \<open>Bracket grouping (groupRelatedOrders and its helpers)\<close>

text \<open>
  \<open>toLowerCase\<close> on the letters A to Z; a \<open>char\<close> is a byte, and every other byte
  is kept. \<open>includes'\<close> is JavaScript's \<open>includes\<close>, the substring test.
\<close>

definition lowerChar :: "char \<Rightarrow> char" where
  "lowerChar c =
     (case map_of (zip ''ABCDEFGHIJKLMNOPQRSTUVWXYZ'' ''abcdefghijklmnopqrstuvwxyz'') c of
        Some d \<Rightarrow> d
      | None \<Rightarrow> c)"

definition toLowerCase :: "string \<Rightarrow> string" where
  "toLowerCase s = map lowerChar s"

fun startsWith :: "string \<Rightarrow> string \<Rightarrow> bool" where
  "startsWith s [] = True"
| "startsWith [] (c # p) = False"
| "startsWith (d # s) (c # p) = (d = c \<and> startsWith s p)"

fun includes' :: "string \<Rightarrow> string \<Rightarrow> bool" where
  "includes' [] p = (p = [])"
| "includes' (d # s) p = (startsWith (d # s) p \<or> includes' s p)"

text \<open>\<open>(x || '')\<close> for a string property.\<close>

definition orEmpty :: "string field \<Rightarrow> string" where
  "orEmpty f = (case f of Val s \<Rightarrow> s | _ \<Rightarrow> [])"

datatype role = Entry | Stop | Target | Other

definition getOrderRole :: "order \<Rightarrow> role" where
  "getOrderRole od =
     (let orderTypeL = toLowerCase (orEmpty (orderType od));
          textL = toLowerCase (orEmpty (text' od))
      in if includes' orderTypeL ''stop'' \<or> stopPrice od \<noteq> Undefined \<or>
            includes' textL ''stop'' \<or> includes' textL ''sl'' \<or> orderTypeL = ''stoplimit''
         then Stop
         else if (includes' orderTypeL ''limit'' \<and>
                   (includes' textL ''profit'' \<or> includes' textL ''target'' \<or> includes' textL ''tp'')) \<or>
                 (orderTypeL = ''limit'' \<and> truthyN (linkedId od) \<and> \<not> truthyN (stopPrice od))
         then Target
         else if includes' orderTypeL ''market'' \<or>
                 (includes' orderTypeL ''limit'' \<and> \<not> truthyN (linkedId od) \<and> \<not> truthyN (stopPrice od))
         then Entry
         else Other)"

text \<open>\<open>order.id || order.orderId\<close>, the identifier grouping goes by.\<close>

definition getId :: "order \<Rightarrow> nat field" where
  "getId od = orN (id' od) (orderId od)"

text \<open>
  The body of the loop of \<open>findRelatedOrders\<close>: \<open>isRelated\<close> for the main order
  and one other order, as a truth value.
\<close>

definition isRelated :: "order \<Rightarrow> order \<Rightarrow> bool" where
  "isRelated mainOrder od =
     (let orderId' = getId od;
          mainOrderId = getId mainOrder;
          linkedRelation = (linkedId od = mainOrderId \<or> linkedId mainOrder = orderId');
          ocoRelation = (ocoId od = orderId' \<or> ocoId od = mainOrderId);
          parentChildRelation = (parentId od = mainOrderId \<or> parentId mainOrder = orderId');
          siblingRelation = (truthyN (parentId od) \<and> truthyN (parentId mainOrder) \<and>
                             parentId od = parentId mainOrder);
          sharedLinkedId = (truthyN (linkedId mainOrder) \<and> linkedId od = linkedId mainOrder);
          linkedBySharedId = (truthyN (linkedId mainOrder) \<and> orderId' = linkedId mainOrder)
      in linkedRelation \<or> ocoRelation \<or> parentChildRelation \<or> siblingRelation \<or>
         sharedLinkedId \<or> linkedBySharedId)"

definition findRelatedOrders :: "order \<Rightarrow> order list \<Rightarrow> order list" where
  "findRelatedOrders mainOrder allOrders =
     mainOrder # filter (\<lambda>od. getId od \<noteq> getId mainOrder \<and> isRelated mainOrder od) allOrders"

text \<open>
  \<open>roleOrder[aType] || 3\<close>: the table gives entry 0, which is falsy, so the key of an
  entry is 3, as that of an order of no role. \<open>Array.prototype.sort\<close> is stable, and
  the comparator is the difference of the keys: \<open>sort_key\<close>.
\<close>

definition roleOrder :: "role \<Rightarrow> nat" where
  "roleOrder r = (case r of Entry \<Rightarrow> 0 | Stop \<Rightarrow> 1 | Target \<Rightarrow> 2 | Other \<Rightarrow> 3)"

definition sortKey :: "order \<Rightarrow> nat" where
  "sortKey od = (if roleOrder (getOrderRole od) \<noteq> 0 then roleOrder (getOrderRole od) else 3)"

definition extractOrderPrice :: "order \<Rightarrow> rat field" where
  "extractOrderPrice od =
     orN (price od) (orN (limitPrice od) (orN (stopPrice od) (orN (workingPrice od) Null)))"

text \<open>
  A sub-record of \<open>bracketDetails\<close>. The entry's has no \<open>orderType\<close>, the stop's and
  the target's have no \<open>action\<close> and no \<open>qty\<close>: a property the object literal does
  not set reads as \<open>undefined\<close>.
\<close>

record subRecord =
  sr_action :: "string field"
  sr_qty :: "rat field"
  sr_price :: "rat field"
  sr_orderId :: "nat field"
  sr_status :: "string field"
  sr_orderType :: "string field"

record bracketDetails =
  entry :: "subRecord option"
  stopLoss :: "subRecord option"
  takeProfit :: "subRecord option"

text \<open>
  An emitted group: \<open>primary\<close> is the spread order with \<open>orderType\<close> overwritten;
  a standalone group has no \<open>groupSize\<close> and no \<open>bracketDetails\<close>.
\<close>

record orderGroup =
  primary :: order
  isGroup :: bool
  groupSize :: "nat field"
  details :: "bracketDetails option"

definition entrySummary :: "order \<Rightarrow> subRecord" where
  "entrySummary e = \<lparr> sr_action = action e, sr_qty = orderQty e, sr_price = extractOrderPrice e,
     sr_orderId = orN (orderId e) (id' e), sr_status = orS (ordStatus e) (status e),
     sr_orderType = Undefined \<rparr>"

definition legSummary :: "order \<Rightarrow> subRecord" where
  "legSummary l = \<lparr> sr_action = Undefined, sr_qty = Undefined, sr_price = extractOrderPrice l,
     sr_orderId = orN (orderId l) (id' l), sr_status = orS (ordStatus l) (status l),
     sr_orderType = orderType l \<rparr>"

definition createBracketOrderGroup :: "order list \<Rightarrow> orderGroup" where
  "createBracketOrderGroup relatedOrders =
     (let sortedOrders = sort_key sortKey relatedOrders;
          entryOrder = (case find (\<lambda>od. getOrderRole od = Entry) sortedOrders of
                          Some e \<Rightarrow> Some e
                        | None \<Rightarrow> (case sortedOrders of [] \<Rightarrow> None | x # _ \<Rightarrow> Some x));
          stopOrder = find (\<lambda>od. getOrderRole od = Stop) sortedOrders;
          targetOrder = find (\<lambda>od. getOrderRole od = Target) sortedOrders
      in \<lparr> primary = (case entryOrder of None \<Rightarrow> blankOrder | Some e \<Rightarrow> e)\<lparr> orderType := Val ''Bracket'' \<rparr>,
           isGroup = True,
           groupSize = Val (length relatedOrders),
           details = Some \<lparr> entry = map_option entrySummary entryOrder,
                             stopLoss = map_option legSummary stopOrder,
                             takeProfit = map_option legSummary targetOrder \<rparr> \<rparr>)"

definition standalone :: "order \<Rightarrow> orderGroup" where
  "standalone od = \<lparr> primary = od\<lparr> orderType := orS (orderType od) (Val ''Single'') \<rparr>,
     isGroup = False, groupSize = Undefined, details = None \<rparr>"

text \<open>
  The loop of \<open>groupRelatedOrders\<close> over the orders still to visit, with the
  identifiers processed so far.
\<close>

fun groupLoop :: "order list \<Rightarrow> nat field list \<Rightarrow> order list \<Rightarrow> orderGroup list" where
  "groupLoop allOrders processedOrderIds [] = []"
| "groupLoop allOrders processedOrderIds (od # rest) =
     (if getId od \<in> set processedOrderIds then groupLoop allOrders processedOrderIds rest
      else let relatedOrders = findRelatedOrders od allOrders
           in if length relatedOrders > 1
              then createBracketOrderGroup relatedOrders #
                   groupLoop allOrders (processedOrderIds @ map getId relatedOrders) rest
              else standalone od # groupLoop allOrders (processedOrderIds @ [getId od]) rest)"

definition groupRelatedOrders :: "order list \<Rightarrow> orderGroup list" where
  "groupRelatedOrders orders = groupLoop orders [] orders"

text \<open>A bracket as the venue reports it: a market entry, its stop and its target.\<close>

definition entryE :: order where
  "entryE = blankOrder\<lparr> id' := Val 1, orderType := Val ''Market'', action := Val ''Buy'',
     orderQty := Val 2, ordStatus := Val ''Working'' \<rparr>"

definition stopS :: order where
  "stopS = blankOrder\<lparr> id' := Val 2, orderType := Val ''Stop'', action := Val ''Sell'',
     orderQty := Val 2, stopPrice := Val 95, parentId := Val 1, ordStatus := Val ''Suspended'' \<rparr>"

definition targetT :: order where
  "targetT = blankOrder\<lparr> id' := Val 3, orderType := Val ''Limit'', action := Val ''Sell'',
     orderQty := Val 2, limitPrice := Val 110, linkedId := Val 1, ordStatus := Val ''Suspended'' \<rparr>"

text \<open>
  The glossary's working order, in the spec's words: an order whose status is neither
  filled, cancelled nor rejected (both spellings of cancelled). Used only to compare
  with \<open>workingStatus\<close>, which is what \<open>cacheOrders\<close> counts.
\<close>

definition spec_workingOrder :: "order \<Rightarrow> bool" where
  "spec_workingOrder od =
     (orS (status od) (ordStatus od) \<noteq> Val ''Filled'' \<and>
      orS (status od) (ordStatus od) \<noteq> Val ''Canceled'' \<and>
      orS (status od) (ordStatus od) \<noteq> Val ''Cancelled'' \<and>
      orS (status od) (ordStatus od) \<noteq> Val ''Rejected'')"

definition suspendedOrder :: order where
  "suspendedOrder = blankOrder\<lparr> id' := Val 7, orderType := Val ''Stop'', ordStatus := Val ''Suspended'' \<rparr>"

text \<open>
  The order a bracket group is built around, in terms of the related orders as
  \<open>findRelatedOrders\<close> returns them: the first of entry role; without one, the first
  stop; without one, the first target; else the first order (for no orders at all,
  the empty object). It states what
  \<open>createBracketOrderGroup\<close> computes with its sort and its fallback
  \<open>|| sortedOrders[0]\<close> (lemma \<open>createBracketOrderGroup_eq\<close>).
\<close>

definition leadOrder :: "order list \<Rightarrow> order" where
  "leadOrder rel =
     (case find (\<lambda>od. getOrderRole od = Entry) rel of
        Some e \<Rightarrow> e
      | None \<Rightarrow> (case find (\<lambda>od. getOrderRole od = Stop) rel of
                    Some s \<Rightarrow> s
                  | None \<Rightarrow> (case find (\<lambda>od. getOrderRole od = Target) rel of
                                Some t \<Rightarrow> t
                              | None \<Rightarrow> (case rel of [] \<Rightarrow> blankOrder | x # _ \<Rightarrow> x))))"

text \<open>A stop with a target linked to it and no entry; an order with no type.\<close>

definition loneStop :: order where
  "loneStop = blankOrder\<lparr> id' := Val 2, orderType := Val ''Stop'', stopPrice := Val 95,
     ordStatus := Val ''Working'' \<rparr>"

definition itsTarget :: order where
  "itsTarget = blankOrder\<lparr> id' := Val 3, orderType := Val ''Limit'', limitPrice := Val 110,
     linkedId := Val 2, ordStatus := Val ''Working'' \<rparr>"

definition untypedOrder :: order where
  "untypedOrder = blankOrder\<lparr> id' := Val 9, ordStatus := Val ''Working'' \<rparr>"

section \<open>RateLimiter (services/rateLimiter.js)\<close>

text \<open>
  A queue entry. \<open>promise\<close> stands for the pair \<open>resolve\<close>, \<open>reject\<close> of the promise
  that \<open>queueRequest\<close> creates for the entry, \<open>requestFn\<close> for the thunk; the wrapper
  of \<open>addPenaltyTicketToRequest\<close> calls the thunk and returns what it returns, so it
  is the same function.
\<close>

record request =
  requestFn :: nat
  requestId :: string
  promise :: nat
  attempts :: nat
  createdAt :: nat

record penaltyData =
  p_ticket :: "string field"
  p_time :: "nat field"
  p_captcha :: "bool field"

fun truthyB :: "bool field \<Rightarrow> bool" where
  "truthyB (Val b) = b"
| "truthyB _ = False"

text \<open>
  What one call of a thunk does: it returns a response, with or without \<open>data\<close>, or
  throws an error, with or without \<open>error.response.status\<close>.
\<close>

datatype response = NoData | Data penaltyData

datatype failure = HttpError "nat option"

datatype outcome = Returns response | Throws failure

datatype settlement =
    Resolved response
  | RejectedCaptcha
  | RejectedMaxRetry
  | RejectedError failure

record execution =
  ex_promise :: nat
  ex_requestId :: string
  ex_attempt :: nat
  ex_startTime :: nat

text \<open>
  The fields of the class, and after them its environment: \<open>Date.now()\<close>, the pending
  \<open>setTimeout\<close> callbacks of \<open>handleRequestError\<close> with the time each is due, the
  promises settled so far, and the calls of thunks so far (the log line "Executing
  request ... (attempt n)" with the time of the call).
\<close>

record gate =
  minRequestInterval :: nat
  defaultRetryDelay :: nat
  maxRetryAttempts :: nat
  requestQueue :: "request list"
  isProcessing :: bool
  lastRequestTime :: nat
  penaltyActive :: bool
  penaltyEndTime :: nat
  currentPenaltyTicket :: "string field"
  totalRequests :: nat
  penaltiesReceived :: nat
  failedRequests :: nat
  averageResponseTime :: rat
  clock :: nat
  retryTimers :: "(nat \<times> request) list"
  settled :: "(nat \<times> settlement) list"
  executions :: "execution list"
  nextPromise :: nat

record options =
  opt_minRequestInterval :: "nat field"
  opt_defaultRetryDelay :: "nat field"
  opt_maxRetryAttempts :: "nat field"

text \<open>\<open>options.x || d\<close> for a number.\<close>

definition numOr :: "nat field \<Rightarrow> nat \<Rightarrow> nat" where
  "numOr f d = (case f of Val n \<Rightarrow> (if n \<noteq> 0 then n else d) | _ \<Rightarrow> d)"

definition newRateLimiter :: "options \<Rightarrow> nat \<Rightarrow> gate" where
  "newRateLimiter opts now =
     \<lparr> minRequestInterval = numOr (opt_minRequestInterval opts) 1000,
       defaultRetryDelay = numOr (opt_defaultRetryDelay opts) 5000,
       maxRetryAttempts = numOr (opt_maxRetryAttempts opts) 3,
       requestQueue = [], isProcessing = False, lastRequestTime = 0,
       penaltyActive = False, penaltyEndTime = 0, currentPenaltyTicket = Null,
       totalRequests = 0, penaltiesReceived = 0, failedRequests = 0, averageResponseTime = 0,
       clock = now, retryTimers = [], settled = [], executions = [], nextPromise = 0 \<rparr>"

definition noOptions :: options where
  "noOptions = \<lparr> opt_minRequestInterval = Undefined, opt_defaultRetryDelay = Undefined,
     opt_maxRetryAttempts = Undefined \<rparr>"

text \<open>The options the constructor of TradovateClient passes.\<close>

definition clientOptions :: options where
  "clientOptions = \<lparr> opt_minRequestInterval = Val 1500, opt_defaultRetryDelay = Val 5000,
     opt_maxRetryAttempts = Val 3 \<rparr>"

text \<open>
  \<open>await this.sleep(ms)\<close>: a timer of \<open>ms\<close> milliseconds; the worker goes on when
  it goes off. On the clock that \<open>Date.now()\<close> reads this is \<open>ms + skew\<close> milliseconds
  after the call: later when the event loop is busy (\<open>skew\<close> positive), earlier when
  the timer goes off before \<open>Date.now()\<close> has advanced by \<open>ms\<close> (\<open>skew\<close> negative; the
  timer counts on another clock, and the wall clock may be set back). The clock never
  runs backwards here.
\<close>

definition sleep :: "nat \<Rightarrow> int \<Rightarrow> gate \<Rightarrow> gate" where
  "sleep ms skew s = s\<lparr> clock := clock s + nat (int ms + skew) \<rparr>"

definition updateStats :: "nat \<Rightarrow> bool \<Rightarrow> gate \<Rightarrow> gate" where
  "updateStats responseTime success s =
     (let s1 = s\<lparr> totalRequests := totalRequests s + 1 \<rparr>
      in if success
         then s1\<lparr> averageResponseTime :=
                  (averageResponseTime s1 * (of_nat (totalRequests s1) - 1) + of_nat responseTime)
                  / of_nat (totalRequests s1) \<rparr>
         else s1)"

definition isPenaltyResponse :: "response \<Rightarrow> bool" where
  "isPenaltyResponse res =
     (case res of
        NoData \<Rightarrow> False
      | Data d \<Rightarrow> truthyS (p_ticket d) \<or> truthyN (p_time d) \<or> truthyB (p_captcha d))"

definition reject :: "request \<Rightarrow> settlement \<Rightarrow> gate \<Rightarrow> gate" where
  "reject r e s = s\<lparr> settled := settled s @ [(promise r, e)] \<rparr>"

definition resolve :: "request \<Rightarrow> response \<Rightarrow> gate \<Rightarrow> gate" where
  "resolve r res s = s\<lparr> settled := settled s @ [(promise r, Resolved res)] \<rparr>"

text \<open>
  \<open>parseInt(pTime)\<close> of a whole number is the number. A response that carries only
  one of ticket and time (and no CAPTCHA marker) leaves both branches: the request is
  neither put back nor settled.
\<close>

definition handlePenaltyResponse :: "penaltyData \<Rightarrow> request \<Rightarrow> gate \<Rightarrow> gate" where
  "handlePenaltyResponse d r s =
     (let s1 = s\<lparr> penaltiesReceived := penaltiesReceived s + 1 \<rparr>
      in if truthyB (p_captcha d)
         then reject r RejectedCaptcha
                (s1\<lparr> penaltyActive := True, penaltyEndTime := clock s1 + 60 * 60 * 1000,
                     currentPenaltyTicket := Null \<rparr>)
         else if truthyS (p_ticket d) \<and> truthyN (p_time d)
         then (let waitSeconds = (case p_time d of Val n \<Rightarrow> n | _ \<Rightarrow> 0);
                   s2 = s1\<lparr> penaltyActive := True, penaltyEndTime := clock s1 + waitSeconds * 1000,
                            currentPenaltyTicket := p_ticket d \<rparr>;
                   r' = r\<lparr> attempts := attempts r + 1 \<rparr>
               in if attempts r' < maxRetryAttempts s2
                  then s2\<lparr> requestQueue := r' # requestQueue s2 \<rparr>
                  else reject r' RejectedMaxRetry s2)
         else s1)"

definition handleRequestError :: "failure \<Rightarrow> request \<Rightarrow> gate \<Rightarrow> gate" where
  "handleRequestError err r s =
     (let s1 = s\<lparr> failedRequests := failedRequests s + 1 \<rparr>;
          r' = r\<lparr> attempts := attempts r + 1 \<rparr>
      in if err = HttpError (Some 429) \<and> attempts r' < maxRetryAttempts s1
         then s1\<lparr> retryTimers := retryTimers s1 @
                      [(clock s1 + defaultRetryDelay s1 * 2 ^ (attempts r' - 1), r')] \<rparr>
         else reject r' (RejectedError err) s1)"


text \<open>
  What the environment contributes to one pass of the worker's loop: by how much the
  worker wakes late from the sleep for the rest of a penalty window, by how much the
  sleep for the rest of the interval is off (early when negative), how long the thunk
  takes, and what it does. The penalty window is read as over when the worker wakes
  from its sleep for the remainder, so that sleep is the one taken not to end before
  \<open>penaltyEndTime\<close>.
\<close>

record turn =
  penaltyLate :: nat
  intervalSkew :: int
  duration :: nat
  result :: outcome

definition executeRequest :: "turn \<Rightarrow> request \<Rightarrow> gate \<Rightarrow> gate" where
  "executeRequest env r s =
     (let startTime = clock s;
          s1 = s\<lparr> executions := executions s @
                     [\<lparr> ex_promise = promise r, ex_requestId = requestId r,
                        ex_attempt = attempts r + 1, ex_startTime = startTime \<rparr>],
                   lastRequestTime := startTime \<rparr>;
          s2 = s1\<lparr> clock := clock s1 + duration env \<rparr>
      in case result env of
           Returns res \<Rightarrow>
             (let s3 = updateStats (clock s2 - startTime) True s2
              in case res of
                   NoData \<Rightarrow> resolve r res s3
                 | Data d \<Rightarrow> if isPenaltyResponse res then handlePenaltyResponse d r s3
                             else resolve r res s3)
         | Throws err \<Rightarrow> handleRequestError err r s2)"

definition awaitPenalty :: "nat \<Rightarrow> gate \<Rightarrow> gate" where
  "awaitPenalty late s =
     (if penaltyActive s \<and> clock s < penaltyEndTime s
      then (sleep (penaltyEndTime s - clock s) (int late) s)
             \<lparr> penaltyActive := False, currentPenaltyTicket := Null \<rparr>
      else s)"

definition awaitInterval :: "int \<Rightarrow> gate \<Rightarrow> gate" where
  "awaitInterval skew s =
     (let timeSinceLastRequest = int (clock s) - int (lastRequestTime s)
      in if timeSinceLastRequest < int (minRequestInterval s)
         then sleep (nat (int (minRequestInterval s) - timeSinceLastRequest)) skew s
         else s)"

text \<open>
  One pass of the \<open>while\<close> loop of \<open>processQueue\<close>, entered with a non-empty
  queue, and the test of the loop after it: the worker stops when the queue is empty.
\<close>

definition iterate :: "turn \<Rightarrow> gate \<Rightarrow> gate" where
  "iterate env s =
     (let s1 = awaitInterval (intervalSkew env) (awaitPenalty (penaltyLate env) s)
      in case requestQueue s1 of
           [] \<Rightarrow> s1
         | r # rest \<Rightarrow>
             (let s2 = executeRequest env r (s1\<lparr> requestQueue := rest \<rparr>)
              in if requestQueue s2 = [] then s2\<lparr> isProcessing := False \<rparr> else s2))"

text \<open>\<open>processQueue\<close> up to its loop: a second worker never starts.\<close>

definition processQueue :: "gate \<Rightarrow> gate" where
  "processQueue s = (if isProcessing s \<or> requestQueue s = [] then s else s\<lparr> isProcessing := True \<rparr>)"

definition queueRequest :: "nat \<Rightarrow> string \<Rightarrow> gate \<Rightarrow> gate" where
  "queueRequest fn rid s =
     processQueue (s\<lparr> requestQueue := requestQueue s @
                        [\<lparr> requestFn = fn, requestId = rid, promise = nextPromise s,
                           attempts = 0, createdAt = clock s \<rparr>],
                      nextPromise := nextPromise s + 1 \<rparr>)"

text \<open>The callback of the retry timer: \<open>unshift\<close>, then \<open>processQueue\<close>.\<close>

definition retryCallback :: "request \<Rightarrow> gate \<Rightarrow> gate" where
  "retryCallback r s = processQueue (s\<lparr> requestQueue := r # requestQueue s \<rparr>)"

definition isHealthy :: "gate \<Rightarrow> bool" where
  "isHealthy s = (\<not> penaltyActive s \<and> length (requestQueue s) < 10)"

text \<open>
  The gate among its callers. An event is a call of \<open>queueRequest\<close>, a retry timer
  that is due going off, one pass of the worker's loop, or time passing. A pass of the
  loop is taken as one step: callers and timers run before or after it. The manual
  operations \<open>clearQueue\<close> and \<open>resetPenalties\<close> are not events.
\<close>

datatype event = Enqueue nat string | Fire nat | Iterate turn | Tick nat

fun step :: "event \<Rightarrow> gate \<Rightarrow> gate" where
  "step (Enqueue fn rid) s = queueRequest fn rid s"
| "step (Fire i) s =
     (if i < length (retryTimers s) \<and> fst (retryTimers s ! i) \<le> clock s
      then retryCallback (snd (retryTimers s ! i))
             (s\<lparr> retryTimers := take i (retryTimers s) @ drop (Suc i) (retryTimers s) \<rparr>)
      else s)"
| "step (Iterate env) s = (if isProcessing s \<and> requestQueue s \<noteq> [] then iterate env s else s)"
| "step (Tick d) s = s\<lparr> clock := clock s + d \<rparr>"

fun run :: "event list \<Rightarrow> gate \<Rightarrow> gate" where
  "run [] s = s"
| "run (e # es) s = run es (step e s)"

definition timesExecuted :: "nat \<Rightarrow> gate \<Rightarrow> nat" where
  "timesExecuted p s = length (filter (\<lambda>e. ex_promise e = p) (executions s))"

text \<open>Consecutive entries of a list of times are at least \<open>d\<close> apart.\<close>

fun spaced :: "nat \<Rightarrow> nat list \<Rightarrow> bool" where
  "spaced d (t # u # ts) = (t + d \<le> u \<and> spaced d (u # ts))"
| "spaced d _ = True"

text \<open>
  No sleep for the rest of the interval ends early in a run: on the gate's clock
  each lasts at least the time asked for.
\<close>

fun punctual :: "event list \<Rightarrow> bool" where
  "punctual [] = True"
| "punctual (Iterate env # es) = (0 \<le> intervalSkew env \<and> punctual es)"
| "punctual (e # es) = punctual es"

text \<open>Responses and turns for the examples.\<close>

definition timedPenalty :: penaltyData where
  "timedPenalty = \<lparr> p_ticket = Val ''X'', p_time = Val 5, p_captcha = Undefined \<rparr>"

definition captchaPenalty :: penaltyData where
  "captchaPenalty = \<lparr> p_ticket = Undefined, p_time = Undefined, p_captcha = Val True \<rparr>"

definition bothPenalties :: penaltyData where
  "bothPenalties = \<lparr> p_ticket = Val ''X'', p_time = Val 5, p_captcha = Val True \<rparr>"

definition turnOf :: "outcome \<Rightarrow> turn" where
  "turnOf out = \<lparr> penaltyLate = 0, intervalSkew = 0, duration = 40, result = out \<rparr>"

definition earlyTurn :: turn where
  "earlyTurn = \<lparr> penaltyLate = 0, intervalSkew = - 1, duration = 40, result = Returns NoData \<rparr>"

text \<open>The time at which a pass of the loop calls the thunk.\<close>

definition startOf :: "turn \<Rightarrow> gate \<Rightarrow> nat" where
  "startOf env s = clock (awaitInterval (intervalSkew env) (awaitPenalty (penaltyLate env) s))"

text \<open>The state in which a pass of the loop calls the thunk of the head of the queue.\<close>

definition atCall :: "turn \<Rightarrow> gate \<Rightarrow> gate" where
  "atCall env s =
     (awaitInterval (intervalSkew env) (awaitPenalty (penaltyLate env) s))\<lparr> requestQueue := tl (requestQueue s) \<rparr>"

text \<open>
  What holds of the calls so far at every moment: they are spaced, and
  \<open>lastRequestTime\<close> is the time of the last one.
\<close>

definition spacingInv :: "gate \<Rightarrow> bool" where
  "spacingInv s =
     (spaced (minRequestInterval s) (map ex_startTime (executions s)) \<and>
      (executions s \<noteq> [] \<longrightarrow> ex_startTime (last (executions s)) = lastRequestTime s))"

text \<open>The requests waiting: those queued and those a retry timer holds.\<close>

definition pending :: "gate \<Rightarrow> request list" where
  "pending s = requestQueue s @ map snd (retryTimers s)"

text \<open>
  What holds of the waiting requests at every moment: each is one promise's, its
  counter is below the cap and counts the calls of its thunk so far; and no thunk has
  been called more often than the cap.
\<close>

definition retryInv :: "gate \<Rightarrow> bool" where
  "retryInv s =
     (0 < maxRetryAttempts s \<and>
      distinct (map promise (pending s)) \<and>
      (\<forall>r\<in>set (pending s). promise r < nextPromise s \<and> attempts r < maxRetryAttempts s \<and>
                              timesExecuted (promise r) s = attempts r) \<and>
      (\<forall>e\<in>set (executions s). ex_promise e < nextPromise s) \<and>
      (\<forall>p. timesExecuted p s \<le> maxRetryAttempts s))"

section \<open>TradovateDataCollector (services/tradovateClient.js)\<close>

datatype dataType = Balance | Positions | Orders

definition pollingIntervals :: "mode \<Rightarrow> dataType \<Rightarrow> nat" where
  "pollingIntervals m k =
     (case m of
        IDLE \<Rightarrow> (case k of Balance \<Rightarrow> 5 * 60 * 1000 | Positions \<Rightarrow> 2 * 60 * 1000 | Orders \<Rightarrow> 2 * 60 * 1000)
      | ACTIVE \<Rightarrow> (case k of Balance \<Rightarrow> 60 * 1000 | Positions \<Rightarrow> 15 * 1000 | Orders \<Rightarrow> 10 * 1000)
      | CRITICAL \<Rightarrow> (case k of Balance \<Rightarrow> 30 * 1000 | Positions \<Rightarrow> 5 * 1000 | Orders \<Rightarrow> 5 * 1000))"

text \<open>
  The entry of \<open>this.timers\<close> for an account: the handle of the pending timer of each
  data type, or \<open>null\<close>.
\<close>

record accountTimers =
  t_balance :: "nat option"
  t_positions :: "nat option"
  t_orders :: "nat option"

text \<open>
  What the brokerage holds when a fetch reaches it, and what a fetch does: it returns
  after some time with that, or fails after some time, with an error message that
  mentions "rate limit" or "429", or does not.
\<close>

record brokerage =
  b_positions :: "position list"
  b_orders :: "order list"

datatype fetch = Fetched nat brokerage | Failed nat bool

record pollTimer =
  pt_due :: nat
  pt_account :: accountId
  pt_dataType :: dataType

text \<open>
  The collector: its cache and its map of timers; and its environment: the clock, the
  answers the brokerage will give to the fetches to come, the pending polling timers
  by handle, and the pending reversions of \<open>forcePollingMode\<close> with the time each is
  due. The handle of a reversion is dropped where it is created, so nothing can clear
  it. Statistics and emitted events are left out.
\<close>

record collector =
  dataCache :: dataCache
  timers :: "accountId \<rightharpoonup> accountTimers"
  clockNow :: nat
  feed :: "fetch list"
  pollTimers :: "nat \<rightharpoonup> pollTimer"
  nextHandle :: nat
  reversions :: "(nat \<times> accountId) list"

definition clearTimeout :: "nat option \<Rightarrow> collector \<Rightarrow> collector" where
  "clearTimeout h s = (case h of None \<Rightarrow> s | Some i \<Rightarrow> s\<lparr> pollTimers := (pollTimers s)(i := None) \<rparr>)"

text \<open>
  \<open>startPollingTimer\<close> as \<open>initializeAccountPolling\<close> calls it: on the fresh
  \<open>accountTimers\<close> object, which it fills in.
\<close>

definition timerOf :: "dataType \<Rightarrow> accountTimers \<Rightarrow> nat option" where
  "timerOf k ts = (case k of Balance \<Rightarrow> t_balance ts | Positions \<Rightarrow> t_positions ts | Orders \<Rightarrow> t_orders ts)"

definition setTimerOf :: "dataType \<Rightarrow> nat option \<Rightarrow> accountTimers \<Rightarrow> accountTimers" where
  "setTimerOf k h ts =
     (case k of Balance \<Rightarrow> ts\<lparr> t_balance := h \<rparr>
              | Positions \<Rightarrow> ts\<lparr> t_positions := h \<rparr>
              | Orders \<Rightarrow> ts\<lparr> t_orders := h \<rparr>)"

definition startPollingTimer :: "accountId \<Rightarrow> dataType \<Rightarrow> accountTimers \<Rightarrow> collector \<Rightarrow> accountTimers \<times> collector" where
  "startPollingTimer a k accTimers s =
     (let m = (case getPollingState a (dataCache s) of None \<Rightarrow> IDLE | Some row \<Rightarrow> current_mode row);
          interval = pollingIntervals m k;
          s1 = clearTimeout (timerOf k accTimers) s;
          h = nextHandle s1;
          s2 = s1\<lparr> pollTimers := (pollTimers s1)(h \<mapsto>
                      \<lparr> pt_due = clockNow s1 + interval, pt_account = a, pt_dataType = k \<rparr>),
                   nextHandle := h + 1 \<rparr>
      in (setTimerOf k (Some h) accTimers, s2))"

text \<open>
  How a call ends: it returns, or it throws (an \<open>async\<close> function's promise is then
  rejected). Either way the state is what the call has made of it by then.
\<close>

datatype 'a completion = Returned 'a | Threw

text \<open>
  \<open>if (!getCachedAccountData(accountId)) cacheAccountData(accountId, {...})\<close>: the row
  of \<open>accounts_cache\<close> that the foreign keys ask for is written before a write for
  the account, if it is missing.
\<close>

definition ensureAccount :: "accountId \<Rightarrow> collector \<Rightarrow> collector" where
  "ensureAccount a s =
     (case getCachedAccountData a (dataCache s) of
        None \<Rightarrow> s\<lparr> dataCache := cacheAccountData a (clockNow s) (dataCache s) \<rparr>
      | Some row \<Rightarrow> s)"

text \<open>
  \<open>getOrders\<close> of the client, after its request has been answered: it standardizes
  the raw orders and caches them unless the cached orders are enriched already, then
  starts \<open>enrichOrdersInBackground\<close> without awaiting it. The cache it writes is the
  collector's (\<open>global.tradovateDataCollector\<close>).

  \<open>enrichOrdersInBackground\<close> runs up to its first \<open>await\<close> before \<open>getOrders\<close>
  returns. With no orders there is nothing to await: the empty list is cached at
  once, whatever the cache held. With orders, it awaits a request for the first of
  them, and caches the enriched list later, by the same \<open>cacheOrders\<close>; that later
  write is not part of a poll here. What it throws it catches.
\<close>

definition basicOrder :: "order \<Rightarrow> order" where
  "basicOrder od = od\<lparr> status := orS (ordStatus od) (status od),
                        limitPrice := orN (price od) (limitPrice od) \<rparr>"

definition enrichOrdersInBackground :: "accountId \<Rightarrow> order list \<Rightarrow> collector \<Rightarrow> collector" where
  "enrichOrdersInBackground a basicOrders s =
     (if basicOrders = [] \<and> isInitialized (dataCache s)
      then (let s1 = ensureAccount a s
            in case cacheOrders a [] (clockNow s1) (dataCache s1) of
                 Inl e \<Rightarrow> s1
               | Inr c \<Rightarrow> s1\<lparr> dataCache := c \<rparr>)
      else s)"

definition getOrders :: "accountId \<Rightarrow> order list \<Rightarrow> collector \<Rightarrow> unit completion \<times> collector" where
  "getOrders a rawOrders s =
     (let basicOrders = map basicOrder rawOrders
      in if isInitialized (dataCache s)
         then (let s1 = ensureAccount a s;
                   hasEnrichedData =
                     (case getCachedOrders a (clockNow s1) (dataCache s1) of
                        None \<Rightarrow> False
                      | Some c \<Rightarrow> list_ex (\<lambda>od. truthyN (limitPrice od) \<and> truthyS (orderType od)) (co_data c))
               in if \<not> hasEnrichedData
                  then (case cacheOrders a basicOrders (clockNow s1) (dataCache s1) of
                          Inl e \<Rightarrow> (Threw, s1)
                        | Inr c \<Rightarrow> (Returned (), enrichOrdersInBackground a basicOrders (s1\<lparr> dataCache := c \<rparr>)))
                  else (Returned (), enrichOrdersInBackground a basicOrders s1))
         else (Returned (), enrichOrdersInBackground a basicOrders s))"

text \<open>
  What \<open>pollDataType\<close> does with the answer to its fetch: orders are cached by
  \<open>getOrders\<close> itself; a balance and positions are cached here, after the account's
  row, if the cache is initialized.
\<close>

definition cacheFetched :: "accountId \<Rightarrow> dataType \<Rightarrow> brokerage \<Rightarrow> collector \<Rightarrow> unit completion \<times> collector" where
  "cacheFetched a k b s =
     (case k of
        Orders \<Rightarrow> getOrders a (b_orders b) s
      | Balance \<Rightarrow>
          (if isInitialized (dataCache s)
           then (let s1 = ensureAccount a s
                 in case cacheAccountBalance a (clockNow s1) (dataCache s1) of
                      Inl e \<Rightarrow> (Threw, s1)
                    | Inr c \<Rightarrow> (Returned (), s1\<lparr> dataCache := c \<rparr>))
           else (Returned (), s))
      | Positions \<Rightarrow>
          (if isInitialized (dataCache s)
           then (let s1 = ensureAccount a s
                 in case cachePositions a (b_positions b) (clockNow s1) (dataCache s1) of
                      Inl e \<Rightarrow> (Threw, s1)
                    | Inr c \<Rightarrow> (Returned (), s1\<lparr> dataCache := c \<rparr>))
           else (Returned (), s)))"

text \<open>
  \<open>initializeAccountPolling\<close> after its two initial polls: it stores the mode the
  cached counts give and starts the three timers.
\<close>

definition schedulePolling :: "accountId \<Rightarrow> collector \<Rightarrow> unit completion \<times> collector" where
  "schedulePolling a s2 =
     (let pollingInfo' = determinePollingMode a (clockNow s2) (dataCache s2)
      in case updatePollingState a (pi_mode pollingInfo') (pi_reason pollingInfo')
                (clockNow s2) (dataCache s2) of
           Inl e \<Rightarrow> (Threw, s2)
         | Inr c \<Rightarrow>
             (let s3 = s2\<lparr> dataCache := c \<rparr>;
                  fresh = \<lparr> t_balance = None, t_positions = None, t_orders = None \<rparr>;
                  (t1, s4) = startPollingTimer a Balance fresh s3;
                  (t2, s5) = startPollingTimer a Positions t1 s4;
                  (t3, s6) = startPollingTimer a Orders t2 s5
              in (Returned (), s6\<lparr> timers := (timers s6)(a \<mapsto> t3) \<rparr>)))"

text \<open>\<open>restartAccountPolling\<close> up to its call of \<open>initializeAccountPolling\<close>.\<close>

definition clearAccountTimers :: "accountId \<Rightarrow> collector \<Rightarrow> collector" where
  "clearAccountTimers a s =
     (case timers s a of
        None \<Rightarrow> s
      | Some accTimers \<Rightarrow>
          clearTimeout (t_orders accTimers)
            (clearTimeout (t_positions accTimers) (clearTimeout (t_balance accTimers) s)))"

text \<open>
  The polling operations call each other: a poll re-evaluates the mode, a change of
  mode restarts the polling, and the restart polls positions and orders again. The
  first argument bounds the depth of these calls; \<open>None\<close> is a call that does not
  end, because the bound or the brokerage's answers ran out.

  \<open>pollDataType\<close> catches what its fetch, its write to the cache and
  \<open>checkPollingModeChange\<close> throw, and then has failed: it returns \<open>False\<close> here
  (\<open>True\<close> when it reached the end of its \<open>try\<close> block). The message of an error
  of the cache or of \<open>checkPollingModeChange\<close> mentions neither "rate limit" nor
  "429"; after a failed fetch whose message does, \<open>handleRateLimit\<close> is called in the
  \<open>catch\<close> block, and what that throws is thrown on. \<open>checkPollingModeChange\<close> throws
  when the account has no row of polling state (it reads \<open>current_mode\<close> of
  \<open>null\<close>). \<open>initializeAccountPolling\<close> catches what its two polls throw (the second
  is skipped when the first throws), but not what its own write throws.
\<close>

fun pollDataType :: "nat \<Rightarrow> accountId \<Rightarrow> dataType \<Rightarrow> collector \<Rightarrow> (bool completion \<times> collector) option"
and checkPollingModeChange :: "nat \<Rightarrow> accountId \<Rightarrow> collector \<Rightarrow> (unit completion \<times> collector) option"
and restartAccountPolling :: "nat \<Rightarrow> accountId \<Rightarrow> collector \<Rightarrow> (unit completion \<times> collector) option"
and initializeAccountPolling :: "nat \<Rightarrow> accountId \<Rightarrow> collector \<Rightarrow> (unit completion \<times> collector) option"
and handleRateLimit :: "nat \<Rightarrow> accountId \<Rightarrow> collector \<Rightarrow> (unit completion \<times> collector) option"
where
  "pollDataType 0 a k s = None"
| "pollDataType (Suc n) a k s =
     (case feed s of
        [] \<Rightarrow> None
      | Failed elapsed rateLimit # answers \<Rightarrow>
          (let s1 = s\<lparr> feed := answers, clockNow := clockNow s + elapsed \<rparr>
           in if rateLimit
              then (case handleRateLimit n a s1 of
                      None \<Rightarrow> None
                    | Some (Threw, s2) \<Rightarrow> Some (Threw, s2)
                    | Some (Returned u, s2) \<Rightarrow> Some (Returned False, s2))
              else Some (Returned False, s1))
      | Fetched elapsed b # answers \<Rightarrow>
          (let s1 = s\<lparr> feed := answers, clockNow := clockNow s + elapsed \<rparr>
           in case cacheFetched a k b s1 of
                (Threw, s2) \<Rightarrow> Some (Returned False, s2)
              | (Returned u, s2) \<Rightarrow>
                  (case checkPollingModeChange n a s2 of
                     None \<Rightarrow> None
                   | Some (Threw, s3) \<Rightarrow> Some (Returned False, s3)
                   | Some (Returned v, s3) \<Rightarrow> Some (Returned True, s3))))"
| "checkPollingModeChange n a s =
     (case getPollingState a (dataCache s) of
        None \<Rightarrow> Some (Threw, s)
      | Some currentState \<Rightarrow>
          (let newPollingInfo = determinePollingMode a (clockNow s) (dataCache s)
           in if current_mode currentState \<noteq> pi_mode newPollingInfo
              then (case updatePollingState a (pi_mode newPollingInfo) (pi_reason newPollingInfo)
                           (clockNow s) (dataCache s) of
                      Inl e \<Rightarrow> Some (Threw, s)
                    | Inr c \<Rightarrow> restartAccountPolling n a (s\<lparr> dataCache := c \<rparr>))
              else Some (Returned (), s)))"
| "restartAccountPolling n a s = initializeAccountPolling n a (clearAccountTimers a s)"
| "initializeAccountPolling n a s =
     (case pollDataType n a Positions s of
        None \<Rightarrow> None
      | Some (Threw, s1) \<Rightarrow> Some (schedulePolling a s1)
      | Some (Returned ok, s1) \<Rightarrow>
          (case pollDataType n a Orders s1 of
             None \<Rightarrow> None
           | Some (r, s2) \<Rightarrow> Some (schedulePolling a s2)))"
| "handleRateLimit n a s =
     (case updatePollingState a IDLE RateLimitProtection (clockNow s) (dataCache s) of
        Inl e \<Rightarrow> Some (Threw, s)
      | Inr c \<Rightarrow> restartAccountPolling n a (s\<lparr> dataCache := c \<rparr>))"

text \<open>
  \<open>forcePollingMode\<close>; an argument left out takes its default. The reversion it
  schedules is the callback \<open>revertForcedMode\<close>, which \<open>fireReversion\<close> runs when
  the reversion at a position of the pending ones is due. Neither catches what its
  write or its restart throws.
\<close>

definition forcePollingMode ::
    "nat \<Rightarrow> accountId \<Rightarrow> mode \<Rightarrow> string option \<Rightarrow> int option \<Rightarrow> collector \<Rightarrow>
       (unit completion \<times> collector) option" where
  "forcePollingMode n a m reason' durationMs s =
     (let why = (case reason' of None \<Rightarrow> ''User override'' | Some t \<Rightarrow> t);
          duration = (case durationMs of None \<Rightarrow> 10 * 60 * 1000 | Some d \<Rightarrow> d)
      in case updatePollingState a m (UserReason why) (clockNow s) (dataCache s) of
           Inl e \<Rightarrow> Some (Threw, s)
         | Inr c \<Rightarrow>
             (case restartAccountPolling n a (s\<lparr> dataCache := c \<rparr>) of
                None \<Rightarrow> None
              | Some (Threw, s1) \<Rightarrow> Some (Threw, s1)
              | Some (Returned u, s1) \<Rightarrow>
                  Some (Returned (),
                        if duration > 0
                        then s1\<lparr> reversions := reversions s1 @ [(clockNow s1 + nat duration, a)] \<rparr>
                        else s1)))"

definition revertForcedMode :: "nat \<Rightarrow> accountId \<Rightarrow> collector \<Rightarrow> (unit completion \<times> collector) option" where
  "revertForcedMode n a s =
     (let pollingInfo' = determinePollingMode a (clockNow s) (dataCache s)
      in case updatePollingState a (pi_mode pollingInfo') AutoRevert (clockNow s) (dataCache s) of
           Inl e \<Rightarrow> Some (Threw, s)
         | Inr c \<Rightarrow> restartAccountPolling n a (s\<lparr> dataCache := c \<rparr>))"

definition fireReversion :: "nat \<Rightarrow> nat \<Rightarrow> collector \<Rightarrow> (unit completion \<times> collector) option" where
  "fireReversion n i s =
     (if i < length (reversions s) \<and> fst (reversions s ! i) \<le> clockNow s
      then revertForcedMode n (snd (reversions s ! i))
             (s\<lparr> reversions := take i (reversions s) @ drop (Suc i) (reversions s) \<rparr>)
      else Some (Returned (), s))"

text \<open>The mode the account's row holds, if there is one.\<close>

definition storedMode :: "accountId \<Rightarrow> collector \<Rightarrow> mode option" where
  "storedMode a s = map_option current_mode (getPollingState a (dataCache s))"

text \<open>
  A collector that has loaded account 1 at some time: \<open>loadAccounts\<close> has written
  the account's row and its polling state, IDLE.
\<close>

definition loaded :: "fetch list \<Rightarrow> collector" where
  "loaded answers =
     \<lparr> dataCache =
         \<lparr> isInitialized = True, accounts_cache = [1 \<mapsto> 1000000],
           account_balances = Map.empty, positions_cache = Map.empty,
           orders_cache = Map.empty,
           polling_state = [1 \<mapsto> \<lparr> current_mode = IDLE, last_mode_change = 1000000,
                                     mode_change_reason = InitialState,
                                     last_poll_timestamp = 1000000 \<rparr>] \<rparr>,
       timers = Map.empty, clockNow = 1000000, feed = answers, pollTimers = Map.empty,
       nextHandle = 0, reversions = [] \<rparr>"

definition quiet :: brokerage where
  "quiet = \<lparr> b_positions = [], b_orders = [] \<rparr>"

definition busy :: brokerage where
  "busy = \<lparr> b_positions = [\<lparr> netPos = Val 1 \<rparr>], b_orders = [blankOrder\<lparr> id' := Val 5, ordStatus := Val ''Working'' \<rparr>] \<rparr>"

section \<open>The working-order count of a write\<close>

text \<open>
  C4 (as amended). A write of an order list to an initialized cache that holds a row
  of \<open>accounts_cache\<close> for the account stores, with the payload, the number of its
  orders whose status (\<open>status\<close>, or \<open>ordStatus\<close> when \<open>status\<close> is empty or absent) is
  exactly "Working"; a later read returns that stored count with the payload. Without
  the account's row the write throws the foreign-key error and stores nothing.
\<close>

theorem cacheOrders_count:
  assumes "isInitialized c"
  shows "(accounts_cache c a \<noteq> None \<longrightarrow>
           (\<exists>c'. cacheOrders a ordersData now c = Inr c' \<and>
                 getCachedOrders a later c' =
                   Some \<lparr> co_data = ordersData, co_lastUpdated = now,
                          co_age = int later - int now,
                          workingOrdersCount =
                            length (filter (\<lambda>od. orS (status od) (ordStatus od) = Val ''Working'')
                              ordersData) \<rparr>)) \<and>
         (accounts_cache c a = None \<longrightarrow> cacheOrders a ordersData now c = Inl ForeignKeyConstraint)"
  using assms by (simp add: getCachedOrders_def cacheOrders_def workingStatus_def [abs_def])

theorem cacheOrders_count_witness:
  "isInitialized (cacheAccountData 1 3 (initialize newDataCache)) \<and>
   accounts_cache (cacheAccountData 1 3 (initialize newDataCache)) 1 = Some 3 \<and>
   (\<exists>c'. cacheOrders 1 [suspendedOrder, blankOrder\<lparr> status := Val ''Working'' \<rparr>] 5
           (cacheAccountData 1 3 (initialize newDataCache)) = Inr c' \<and>
         getCachedOrders 1 20 c' =
           Some \<lparr> co_data = [suspendedOrder, blankOrder\<lparr> status := Val ''Working'' \<rparr>],
                  co_lastUpdated = 5, co_age = 15, workingOrdersCount = 1 \<rparr>) \<and>
   accounts_cache (initialize newDataCache) 1 = None \<and>
   cacheOrders 1 [suspendedOrder, blankOrder\<lparr> status := Val ''Working'' \<rparr>] 5
     (initialize newDataCache) = Inl ForeignKeyConstraint"
proof -
  have i: "isInitialized (cacheAccountData 1 3 (initialize newDataCache))"
    and j: "isInitialized (initialize newDataCache)"
    by (simp_all add: cacheAccountData_def initialize_def newDataCache_def)
  have a: "accounts_cache (cacheAccountData 1 3 (initialize newDataCache)) 1 = Some 3"
    and b: "accounts_cache (initialize newDataCache) 1 = None"
    by (simp_all add: cacheAccountData_def initialize_def newDataCache_def)
  show ?thesis
    using cacheOrders_count [OF i, of 1 "[suspendedOrder, blankOrder\<lparr> status := Val ''Working'' \<rparr>]" 5 20]
      cacheOrders_count [OF j, of 1 "[suspendedOrder, blankOrder\<lparr> status := Val ''Working'' \<rparr>]" 5 20]
      i a b
    by (simp add: suspendedOrder_def blankOrder_def orS_def)
qed

text \<open>
  The claim as stated fails: an order that is suspended (a bracket's child before its
  parent fills) is neither filled, cancelled nor rejected, and is not counted.
\<close>

theorem cacheOrders_count_counterexample:
  "length (filter spec_workingOrder [suspendedOrder]) = 1 \<and>
   (case cacheOrders 1 [suspendedOrder] 5 (cacheAccountData 1 3 (initialize newDataCache)) of
      Inl e \<Rightarrow> None
    | Inr c' \<Rightarrow> map_option workingOrdersCount (getCachedOrders 1 20 c')) = Some 0"
  by (simp add: getCachedOrders_def cacheOrders_def cacheAccountData_def workingStatus_def
      spec_workingOrder_def suspendedOrder_def blankOrder_def orS_def initialize_def
      newDataCache_def)

section \<open>Bracket grouping: what the groups hold\<close>


lemma findRelatedOrders_alone:
  assumes "\<forall>x\<in>set allOrders. getId x \<noteq> getId m \<longrightarrow> \<not> isRelated m x"
  shows "findRelatedOrders m allOrders = [m]"
proof -
  have "filter (\<lambda>od. getId od \<noteq> getId m \<and> isRelated m od) allOrders = []"
    using assms by (auto simp: filter_empty_conv)
  then show ?thesis by (simp add: findRelatedOrders_def)
qed

lemma groupLoop_standalone:
  assumes "\<forall>m\<in>set rest. findRelatedOrders m allOrders = [m]"
      and "distinct (map getId rest)"
      and "set (map getId rest) \<inter> set processed = {}"
  shows "groupLoop allOrders processed rest = map standalone rest"
  using assms
proof (induction rest arbitrary: processed)
  case Nil
  then show ?case by simp
next
  case (Cons od rest)
  have notin: "getId od \<notin> set processed" using Cons.prems(3) by auto
  have rel: "findRelatedOrders od allOrders = [od]" using Cons.prems(1) by simp
  have "groupLoop allOrders (processed @ [getId od]) rest = map standalone rest"
  proof (rule Cons.IH)
    show "\<forall>m\<in>set rest. findRelatedOrders m allOrders = [m]" using Cons.prems(1) by simp
    show "distinct (map getId rest)" using Cons.prems(2) by simp
    show "set (map getId rest) \<inter> set (processed @ [getId od]) = {}"
      using Cons.prems(2,3) by auto
  qed
  with notin rel show ?case by simp
qed

text \<open>
  C9 (as amended). When the orders have pairwise distinct identifiers and no order is
  related to another (none of the relations \<open>findRelatedOrders\<close> tests holds between
  a main order and a different order), the result is one standalone group per input
  order, in input order, each with \<open>isGroup\<close> false and with the order's own
  \<open>orderType\<close>, or "Single" when the order has none.
\<close>

theorem groupRelatedOrders_unrelated:
  assumes "distinct (map getId orders)"
      and "\<forall>m\<in>set orders. \<forall>x\<in>set orders. getId x \<noteq> getId m \<longrightarrow> \<not> isRelated m x"
  shows "groupRelatedOrders orders = map standalone orders"
proof -
  have "\<forall>m\<in>set orders. findRelatedOrders m orders = [m]"
    using assms(2) by (auto intro: findRelatedOrders_alone)
  then show ?thesis
    unfolding groupRelatedOrders_def using assms(1) by (intro groupLoop_standalone) auto
qed

lemma find_hd_filter: "find P xs = (case filter P xs of [] \<Rightarrow> None | x # _ \<Rightarrow> Some x)"
  by (induction xs) auto

lemma sortKey_role: "sortKey od = (case getOrderRole od of Entry \<Rightarrow> 3 | Stop \<Rightarrow> 1 | Target \<Rightarrow> 2 | Other \<Rightarrow> 3)"
  by (simp add: sortKey_def roleOrder_def split: role.splits)

lemma filter_role_sorted:
  "filter (\<lambda>od. getOrderRole od = r) (sort_key sortKey xs) = filter (\<lambda>od. getOrderRole od = r) xs"
proof -
  define k :: nat where "k = (case r of Entry \<Rightarrow> 3 | Stop \<Rightarrow> 1 | Target \<Rightarrow> 2 | Other \<Rightarrow> 3)"
  have split: "filter (\<lambda>od. getOrderRole od = r) ys
               = filter (\<lambda>od. getOrderRole od = r) (filter (\<lambda>od. sortKey od = k) ys)" for ys
    by (cases r) (auto simp: sortKey_role k_def intro!: filter_cong)
  have "filter (\<lambda>od. getOrderRole od = r) (sort_key sortKey xs)
        = filter (\<lambda>od. getOrderRole od = r) (filter (\<lambda>od. sortKey od = k) (sort_key sortKey xs))"
    by (rule split)
  also have "\<dots> = filter (\<lambda>od. getOrderRole od = r) (filter (\<lambda>od. sortKey od = k) xs)"
    by (simp only: sort_key_stable)
  also have "\<dots> = filter (\<lambda>od. getOrderRole od = r) xs"
    by (rule split [symmetric])
  finally show ?thesis .
qed

lemma find_role_sorted:
  "find (\<lambda>od. getOrderRole od = r) (sort_key sortKey xs) = find (\<lambda>od. getOrderRole od = r) xs"
  by (simp add: find_hd_filter filter_role_sorted)


lemma head_sort_key_min:
  fixes k :: "'a \<Rightarrow> nat"
  assumes "x \<in> set xs" and "k x = c" and "\<forall>y\<in>set xs. c \<le> k y"
  shows "(case sort_key k xs of [] \<Rightarrow> None | y # _ \<Rightarrow> Some y) = find (\<lambda>y. k y = c) xs"
proof (cases "sort_key k xs")
  case Nil
  then have "set (sort_key k xs) = {}" by simp
  with assms(1) show ?thesis by simp
next
  case (Cons z zs)
  have srt: "sorted (map k (z # zs))" using sorted_sort_key [of k xs] Cons by simp
  have sets: "set (z # zs) = set xs" using set_sort [of k xs] Cons by simp
  have "k z \<le> k x" using srt sets assms(1) by auto
  moreover have "c \<le> k z" using assms(3) sets by auto
  ultimately have kz: "k z = c" using assms(2) by simp
  have "filter (\<lambda>y. k y = c) xs = filter (\<lambda>y. k y = c) (sort_key k xs)"
    by (simp only: sort_key_stable)
  also have "\<dots> = z # filter (\<lambda>y. k y = c) zs" using Cons kz by simp
  finally show ?thesis using Cons by (simp add: find_hd_filter)
qed

lemma find_None_role: "find (\<lambda>od. getOrderRole od = r) xs = None \<longleftrightarrow> (\<forall>od\<in>set xs. getOrderRole od \<noteq> r)"
  by (auto simp: find_None_iff)

lemma head_sorted_no_entry:
  assumes "find (\<lambda>od. getOrderRole od = Entry) (m # rest) = None"
  shows "(case sort_key sortKey (m # rest) of [] \<Rightarrow> None | y # _ \<Rightarrow> Some y) =
         Some (case find (\<lambda>od. getOrderRole od = Stop) (m # rest) of
                 Some s \<Rightarrow> s
               | None \<Rightarrow> (case find (\<lambda>od. getOrderRole od = Target) (m # rest) of
                             Some t \<Rightarrow> t
                           | None \<Rightarrow> m))"
proof -
  let ?xs = "m # rest"
  have noE: "\<forall>od\<in>set ?xs. getOrderRole od \<noteq> Entry" using assms by (simp only: find_None_role)
  have k1: "(\<lambda>od. sortKey od = 1) = (\<lambda>od. getOrderRole od = Stop)"
    by (rule ext) (simp add: sortKey_role split: role.splits)
  have k2: "(\<lambda>od. sortKey od = 2) = (\<lambda>od. getOrderRole od = Target)"
    by (rule ext) (simp add: sortKey_role split: role.splits)
  show ?thesis
  proof (cases "find (\<lambda>od. getOrderRole od = Stop) ?xs")
    case (Some s)
    then obtain x where x: "x \<in> set ?xs" "getOrderRole x = Stop"
      by (metis find_None_role option.distinct(1))
    have "(case sort_key sortKey ?xs of [] \<Rightarrow> None | y # _ \<Rightarrow> Some y) = find (\<lambda>y. sortKey y = 1) ?xs"
    proof (rule head_sort_key_min [OF x(1)])
      show "sortKey x = 1" using x(2) by (simp add: sortKey_role)
      show "\<forall>y\<in>set ?xs. 1 \<le> sortKey y" by (simp add: sortKey_role split: role.splits)
    qed
    then show ?thesis using Some by (simp only: k1) simp
  next
    case None
    then have noS: "\<forall>od\<in>set ?xs. getOrderRole od \<noteq> Stop" by (simp only: find_None_role)
    show ?thesis
    proof (cases "find (\<lambda>od. getOrderRole od = Target) ?xs")
      case (Some t)
      then obtain x where x: "x \<in> set ?xs" "getOrderRole x = Target"
        by (metis find_None_role option.distinct(1))
      have "(case sort_key sortKey ?xs of [] \<Rightarrow> None | y # _ \<Rightarrow> Some y) = find (\<lambda>y. sortKey y = 2) ?xs"
      proof (rule head_sort_key_min [OF x(1)])
        show "sortKey x = 2" using x(2) by (simp add: sortKey_role)
        show "\<forall>y\<in>set ?xs. 2 \<le> sortKey y"
          using noS by (auto simp: sortKey_role split: role.splits)
      qed
      then show ?thesis using Some None by (simp only: k2) simp
    next
      case None2: None
      then have noT: "\<forall>od\<in>set ?xs. getOrderRole od \<noteq> Target" by (simp only: find_None_role)
      have all3: "\<forall>y\<in>set ?xs. sortKey y = 3"
        using noE noS noT by (auto simp: sortKey_role split: role.splits)
      have "(case sort_key sortKey ?xs of [] \<Rightarrow> None | y # _ \<Rightarrow> Some y) = find (\<lambda>y. sortKey y = 3) ?xs"
      proof (rule head_sort_key_min [of m])
        show "m \<in> set ?xs" by simp
        show "sortKey m = 3" using all3 by simp
        show "\<forall>y\<in>set ?xs. 3 \<le> sortKey y" using all3 by simp
      qed
      also have "\<dots> = Some m" using all3 by simp
      finally show ?thesis using None None2 by simp
    qed
  qed
qed

lemma entryOrder_eq:
  "(case find (\<lambda>od. getOrderRole od = Entry) (m # rest) of
      None \<Rightarrow> (case sort_key sortKey (m # rest) of [] \<Rightarrow> None | x # _ \<Rightarrow> Some x)
    | Some e \<Rightarrow> Some e)
   = Some (leadOrder (m # rest))"
proof (cases "find (\<lambda>od. getOrderRole od = Entry) (m # rest)")
  case None
  show ?thesis
    unfolding leadOrder_def
    by (simp only: None head_sorted_no_entry [OF None] option.case list.case)
next
  case (Some a)
  show ?thesis
    unfolding leadOrder_def
    by (simp only: Some option.case)
qed

lemma createBracketOrderGroup_eq:
  "createBracketOrderGroup (m # rest) =
     \<lparr> primary = (leadOrder (m # rest))\<lparr> orderType := Val ''Bracket'' \<rparr>,
       isGroup = True,
       groupSize = Val (Suc (length rest)),
       details = Some \<lparr> entry = Some (entrySummary (leadOrder (m # rest))),
                         stopLoss = map_option legSummary (find (\<lambda>od. getOrderRole od = Stop) (m # rest)),
                         takeProfit = map_option legSummary (find (\<lambda>od. getOrderRole od = Target) (m # rest)) \<rparr> \<rparr>"
  unfolding createBracketOrderGroup_def Let_def
  by (simp only: find_role_sorted entryOrder_eq option.case option.map) (simp del: find.simps)

lemma groupLoop_bracket:
  assumes "g \<in> set (groupLoop allOrders processed rest)" and "isGroup g"
  shows "\<exists>m\<in>set rest. g = createBracketOrderGroup (findRelatedOrders m allOrders) \<and>
           1 < length (findRelatedOrders m allOrders)"
  using assms
proof (induction rest arbitrary: processed)
  case Nil
  then show ?case by simp
next
  case (Cons od rest)
  show ?case
  proof (cases "getId od \<in> set processed")
    case True
    with Cons.prems have "g \<in> set (groupLoop allOrders processed rest)" by simp
    from Cons.IH [OF this Cons.prems(2)] show ?thesis by auto
  next
    case False
    show ?thesis
    proof (cases "1 < length (findRelatedOrders od allOrders)")
      case True
      with False Cons.prems(1) consider
          "g = createBracketOrderGroup (findRelatedOrders od allOrders)"
        | "g \<in> set (groupLoop allOrders (processed @ map getId (findRelatedOrders od allOrders)) rest)"
        by (auto simp: Let_def)
      then show ?thesis
      proof cases
        case 1
        with True show ?thesis by auto
      next
        case 2
        from Cons.IH [OF this Cons.prems(2)] show ?thesis by auto
      qed
    next
      case F2: False
      with False Cons.prems(1) consider "g = standalone od"
        | "g \<in> set (groupLoop allOrders (processed @ [getId od]) rest)"
        by (auto simp: Let_def)
      then show ?thesis
      proof cases
        case 1
        with Cons.prems(2) show ?thesis by (simp add: standalone_def)
      next
        case 2
        from Cons.IH [OF this Cons.prems(2)] show ?thesis by auto
      qed
    qed
  qed
qed


lemmas order_eval =
  groupRelatedOrders_def findRelatedOrders_def isRelated_def getId_def orN_def orS_def
  createBracketOrderGroup_def standalone_def sortKey_def roleOrder_def getOrderRole_def
  toLowerCase_def lowerChar_def orEmpty_def extractOrderPrice_def entrySummary_def
  legSummary_def blankOrder_def entryE_def stopS_def targetT_def loneStop_def itsTarget_def untypedOrder_def

lemma role_market:
  assumes "orderType E = Val ''Market''" and "stopPrice E = Undefined"
      and "\<not> includes' (toLowerCase (orEmpty (text' E))) ''stop''"
      and "\<not> includes' (toLowerCase (orEmpty (text' E))) ''sl''"
  shows "getOrderRole E = Entry"
  using assms by (simp add: getOrderRole_def toLowerCase_def lowerChar_def orEmpty_def)

lemma role_stopPrice:
  assumes "stopPrice S \<noteq> Undefined"
  shows "getOrderRole S = Stop"
  using assms by (simp add: getOrderRole_def)

lemma role_linked_limit:
  assumes "orderType T = Val ''Limit''" and "stopPrice T = Undefined" and "truthyN (linkedId T)"
      and "\<not> includes' (toLowerCase (orEmpty (text' T))) ''stop''"
      and "\<not> includes' (toLowerCase (orEmpty (text' T))) ''sl''"
  shows "getOrderRole T = Target"
  using assms by (simp add: getOrderRole_def toLowerCase_def lowerChar_def orEmpty_def)

text \<open>
  C3 (as amended). For an order list that starts with the entry order (a market order
  with a non-zero identifier, no stop price and no annotation mentioning "stop" or
  "sl"), followed in either order by its stop (stop price set, \<open>parentId\<close> the
  entry's identifier) and its target (a limit order with \<open>linkedId\<close> the entry's
  identifier, no stop price and no such annotation), both with identifiers other than
  the entry's, the result is exactly one group, of size 3, whose primary record is the
  entry. Its entry sub-record carries action, quantity, price, identifier and status
  of the entry; its stop-loss and take-profit sub-records carry price, identifier,
  status and order type (no action, no quantity) of the stop and of the target.
\<close>

theorem bracket_round_trip:
  assumes E: "getId E = Val e" "e \<noteq> 0" "orderType E = Val ''Market''" "stopPrice E = Undefined"
        "\<not> includes' (toLowerCase (orEmpty (text' E))) ''stop''"
        "\<not> includes' (toLowerCase (orEmpty (text' E))) ''sl''"
      and S: "stopPrice S \<noteq> Undefined" "parentId S = getId E" "getId S \<noteq> getId E"
      and T: "orderType T = Val ''Limit''" "stopPrice T = Undefined" "linkedId T = getId E"
        "getId T \<noteq> getId E"
        "\<not> includes' (toLowerCase (orEmpty (text' T))) ''stop''"
        "\<not> includes' (toLowerCase (orEmpty (text' T))) ''sl''"
      and rest: "rest = [S, T] \<or> rest = [T, S]"
  shows "groupRelatedOrders (E # rest) =
           [\<lparr> primary = E\<lparr> orderType := Val ''Bracket'' \<rparr>, isGroup = True, groupSize = Val 3,
              details = Some \<lparr> entry = Some (entrySummary E),
                                stopLoss = Some (legSummary S),
                                takeProfit = Some (legSummary T) \<rparr> \<rparr>]"
proof -
  have rE: "getOrderRole E = Entry" using E by (intro role_market)
  have rS: "getOrderRole S = Stop" using S by (intro role_stopPrice)
  have rT: "getOrderRole T = Target" using T E by (intro role_linked_limit) simp_all
  have relS: "isRelated E S" using S by (simp add: isRelated_def)
  have relT: "isRelated E T" using T by (simp add: isRelated_def)
  have related: "findRelatedOrders E (E # rest) = E # rest"
    using rest relS relT S T by (auto simp: findRelatedOrders_def)
  have lead: "leadOrder (E # rest) = E" using rE by (simp add: leadOrder_def)
  have fs: "find (\<lambda>od. getOrderRole od = Stop) (E # rest) = Some S"
    using rest rE rS rT by auto
  have ft: "find (\<lambda>od. getOrderRole od = Target) (E # rest) = Some T"
    using rest rE rS rT by auto
  have len: "length rest = 2" using rest by auto
  have skip: "groupLoop (E # rest) (map getId (E # rest)) rest = []"
    using rest by auto
  have "groupRelatedOrders (E # rest) = [createBracketOrderGroup (E # rest)]"
    unfolding groupRelatedOrders_def using related skip len by simp
  then show ?thesis
    by (simp only: createBracketOrderGroup_eq lead fs ft len option.map) simp
qed

theorem bracket_round_trip_witness:
  "groupRelatedOrders [entryE, targetT, stopS] =
     [\<lparr> primary = entryE\<lparr> orderType := Val ''Bracket'' \<rparr>, isGroup = True, groupSize = Val 3,
        details = Some \<lparr> entry = Some (entrySummary entryE),
                          stopLoss = Some (legSummary stopS),
                          takeProfit = Some (legSummary targetT) \<rparr> \<rparr>]"
  by (rule bracket_round_trip [where e = 1])
     (simp_all add: entryE_def stopS_def targetT_def blankOrder_def getId_def orN_def
        toLowerCase_def orEmpty_def)

text \<open>
  The claim as stated fails: the stop-loss sub-record of the bracket has no action
  (the stop's is "Sell"); and when the stop comes first in the list, two groups are
  emitted.
\<close>

theorem bracket_round_trip_counterexample:
  "map (\<lambda>g. map_option (\<lambda>d. map_option sr_action (stopLoss d)) (details g))
       (groupRelatedOrders [entryE, stopS, targetT]) = [Some (Some Undefined)] \<and>
   action stopS = Val ''Sell'' \<and>
   length (groupRelatedOrders [stopS, entryE, targetT]) = 2"
  by (simp add: order_eval)

text \<open>
  C8 (as amended). Every bracket group emitted is built from the related orders of
  some input order. Its stop-loss (take-profit) sub-record is null exactly when no
  related order has the stop (target) role, and otherwise summarizes the first related
  order of that role. Its entry sub-record is never null: it summarizes the first
  related order of entry role when there is one, and otherwise the first stop, else
  the first target, else the first related order; that same order is the group's
  primary record.
\<close>

theorem bracket_group_details:
  assumes "g \<in> set (groupRelatedOrders orders)" and "isGroup g"
  shows "\<exists>m\<in>set orders. \<exists>rel. rel = findRelatedOrders m orders \<and> 1 < length rel \<and>
           primary g = (leadOrder rel)\<lparr> orderType := Val ''Bracket'' \<rparr> \<and>
           groupSize g = Val (length rel) \<and>
           details g = Some \<lparr> entry = Some (entrySummary (leadOrder rel)),
                               stopLoss = map_option legSummary (find (\<lambda>od. getOrderRole od = Stop) rel),
                               takeProfit = map_option legSummary (find (\<lambda>od. getOrderRole od = Target) rel) \<rparr> \<and>
           (find (\<lambda>od. getOrderRole od = Stop) rel = None \<longleftrightarrow> (\<forall>od\<in>set rel. getOrderRole od \<noteq> Stop)) \<and>
           (find (\<lambda>od. getOrderRole od = Target) rel = None \<longleftrightarrow> (\<forall>od\<in>set rel. getOrderRole od \<noteq> Target))"
proof -
  from groupLoop_bracket [OF assms [unfolded groupRelatedOrders_def]]
  obtain m where m: "m \<in> set orders" "g = createBracketOrderGroup (findRelatedOrders m orders)"
    "1 < length (findRelatedOrders m orders)" by blast
  obtain tl' where rel: "findRelatedOrders m orders = m # tl'"
    by (simp add: findRelatedOrders_def)
  have "primary g = (leadOrder (m # tl'))\<lparr> orderType := Val ''Bracket'' \<rparr> \<and>
        groupSize g = Val (length (m # tl')) \<and>
        details g = Some \<lparr> entry = Some (entrySummary (leadOrder (m # tl'))),
                            stopLoss = map_option legSummary (find (\<lambda>od. getOrderRole od = Stop) (m # tl')),
                            takeProfit = map_option legSummary (find (\<lambda>od. getOrderRole od = Target) (m # tl')) \<rparr>"
    unfolding m(2) rel by (simp only: createBracketOrderGroup_eq) simp
  with m rel show ?thesis
    by (intro bexI [of _ m] exI [of _ "m # tl'"]) (simp_all only: find_None_role simp_thms)
qed

theorem bracket_group_details_witness:
  "createBracketOrderGroup [loneStop, itsTarget] \<in> set (groupRelatedOrders [loneStop, itsTarget]) \<and>
   isGroup (createBracketOrderGroup [loneStop, itsTarget]) \<and>
   (\<exists>m\<in>set [loneStop, itsTarget]. \<exists>rel. rel = findRelatedOrders m [loneStop, itsTarget] \<and>
      1 < length rel \<and>
      primary (createBracketOrderGroup [loneStop, itsTarget]) =
        (leadOrder rel)\<lparr> orderType := Val ''Bracket'' \<rparr> \<and>
      groupSize (createBracketOrderGroup [loneStop, itsTarget]) = Val (length rel) \<and>
      details (createBracketOrderGroup [loneStop, itsTarget]) =
        Some \<lparr> entry = Some (entrySummary (leadOrder rel)),
               stopLoss = map_option legSummary (find (\<lambda>od. getOrderRole od = Stop) rel),
               takeProfit = map_option legSummary (find (\<lambda>od. getOrderRole od = Target) rel) \<rparr> \<and>
      (find (\<lambda>od. getOrderRole od = Stop) rel = None \<longleftrightarrow> (\<forall>od\<in>set rel. getOrderRole od \<noteq> Stop)) \<and>
      (find (\<lambda>od. getOrderRole od = Target) rel = None \<longleftrightarrow> (\<forall>od\<in>set rel. getOrderRole od \<noteq> Target)))"
proof -
  have rel: "findRelatedOrders loneStop [loneStop, itsTarget] = [loneStop, itsTarget]"
    by (simp add: findRelatedOrders_def isRelated_def getId_def orN_def loneStop_def
        itsTarget_def blankOrder_def)
  have h1: "createBracketOrderGroup [loneStop, itsTarget] \<in> set (groupRelatedOrders [loneStop, itsTarget])"
    unfolding groupRelatedOrders_def by (simp add: rel)
  have h2: "isGroup (createBracketOrderGroup [loneStop, itsTarget])"
    by (simp only: createBracketOrderGroup_eq) simp
  from bracket_group_details [OF h1 h2] h1 h2 show ?thesis by blast
qed

text \<open>
  The claim as stated fails: a stop and the target linked to it form a bracket group
  in which no order has the entry role, and its entry sub-record is not null but the
  stop's summary.
\<close>

theorem bracket_group_details_counterexample:
  "map getOrderRole [loneStop, itsTarget] = [Stop, Target] \<and>
   map (\<lambda>g. (isGroup g, map_option entry (details g))) (groupRelatedOrders [loneStop, itsTarget]) =
     [(True, Some (Some \<lparr> sr_action = Undefined, sr_qty = Undefined, sr_price = Val 95,
                          sr_orderId = Val 2, sr_status = Val ''Working'',
                          sr_orderType = Undefined \<rparr>))]"
  by (simp add: order_eval)


theorem groupRelatedOrders_unrelated_witness:
  "groupRelatedOrders [entryE, loneStop, untypedOrder] =
     [\<lparr> primary = entryE, isGroup = False, groupSize = Undefined, details = None \<rparr>,
      \<lparr> primary = loneStop, isGroup = False, groupSize = Undefined, details = None \<rparr>,
      \<lparr> primary = untypedOrder\<lparr> orderType := Val ''Single'' \<rparr>, isGroup = False,
        groupSize = Undefined, details = None \<rparr>]"
proof -
  have d: "distinct (map getId [entryE, loneStop, untypedOrder])"
    by (simp add: order_eval)
  have u: "\<forall>m\<in>set [entryE, loneStop, untypedOrder]. \<forall>x\<in>set [entryE, loneStop, untypedOrder].
             getId x \<noteq> getId m \<longrightarrow> \<not> isRelated m x"
    by (simp add: order_eval)
  show ?thesis
    using groupRelatedOrders_unrelated [OF d u]
    by (simp add: standalone_def orS_def entryE_def loneStop_def untypedOrder_def blankOrder_def)
qed

text \<open>
  The claim as stated fails: an unrelated order that has an order type keeps it, and
  is not emitted with "Single".
\<close>

theorem groupRelatedOrders_unrelated_counterexample:
  "map (\<lambda>g. (isGroup g, orderType (primary g))) (groupRelatedOrders [entryE, loneStop]) =
     [(False, Val ''Market''), (False, Val ''Stop'')]"
  by (simp add: order_eval)

text \<open>
  C10. The groups are not a partition of the input. With the stop listed before its
  entry, the stop's related orders are the stop and the entry, and the target's are
  the target and the entry, which the first group already holds: two bracket groups
  are emitted, and the entry is the entry sub-record of both.
\<close>

theorem entry_in_two_groups:
  "findRelatedOrders stopS [stopS, entryE, targetT] = [stopS, entryE] \<and>
   findRelatedOrders targetT [stopS, entryE, targetT] = [targetT, entryE] \<and>
   groupRelatedOrders [stopS, entryE, targetT] =
     [createBracketOrderGroup [stopS, entryE], createBracketOrderGroup [targetT, entryE]] \<and>
   map (\<lambda>g. (groupSize g, map_option (\<lambda>d. map_option sr_orderId (entry d)) (details g)))
     (groupRelatedOrders [stopS, entryE, targetT]) =
     [(Val 2, Some (Some (Val 1))), (Val 2, Some (Some (Val 1)))]"
  by (simp add: order_eval)

section \<open>The gate: spacing, penalties and retries\<close>


lemmas handler_defs = executeRequest_def updateStats_def isPenaltyResponse_def
  handlePenaltyResponse_def handleRequestError_def reject_def resolve_def Let_def

lemma executeRequest_frame:
  "minRequestInterval (executeRequest env r s) = minRequestInterval s"
  "defaultRetryDelay (executeRequest env r s) = defaultRetryDelay s"
  "maxRetryAttempts (executeRequest env r s) = maxRetryAttempts s"
  "isProcessing (executeRequest env r s) = isProcessing s"
  "nextPromise (executeRequest env r s) = nextPromise s"
  "lastRequestTime (executeRequest env r s) = clock s"
  "clock (executeRequest env r s) = clock s + duration env"
  "executions (executeRequest env r s) = executions s @
     [\<lparr> ex_promise = promise r, ex_requestId = requestId r, ex_attempt = attempts r + 1,
        ex_startTime = clock s \<rparr>]"
  by (simp_all add: handler_defs split: outcome.split response.split)

lemma awaitPenalty_frame:
  "minRequestInterval (awaitPenalty l s) = minRequestInterval s"
  "defaultRetryDelay (awaitPenalty l s) = defaultRetryDelay s"
  "maxRetryAttempts (awaitPenalty l s) = maxRetryAttempts s"
  "isProcessing (awaitPenalty l s) = isProcessing s"
  "nextPromise (awaitPenalty l s) = nextPromise s"
  "lastRequestTime (awaitPenalty l s) = lastRequestTime s"
  "requestQueue (awaitPenalty l s) = requestQueue s"
  "retryTimers (awaitPenalty l s) = retryTimers s"
  "settled (awaitPenalty l s) = settled s"
  "executions (awaitPenalty l s) = executions s"
  "clock s \<le> clock (awaitPenalty l s)"
  by (simp_all add: awaitPenalty_def sleep_def)

lemma awaitInterval_frame:
  "minRequestInterval (awaitInterval l s) = minRequestInterval s"
  "defaultRetryDelay (awaitInterval l s) = defaultRetryDelay s"
  "maxRetryAttempts (awaitInterval l s) = maxRetryAttempts s"
  "isProcessing (awaitInterval l s) = isProcessing s"
  "nextPromise (awaitInterval l s) = nextPromise s"
  "lastRequestTime (awaitInterval l s) = lastRequestTime s"
  "requestQueue (awaitInterval l s) = requestQueue s"
  "retryTimers (awaitInterval l s) = retryTimers s"
  "settled (awaitInterval l s) = settled s"
  "executions (awaitInterval l s) = executions s"
  "penaltyActive (awaitInterval l s) = penaltyActive s"
  "penaltyEndTime (awaitInterval l s) = penaltyEndTime s"
  "clock s \<le> clock (awaitInterval l s)"
  by (simp_all add: awaitInterval_def sleep_def Let_def)

lemma awaitInterval_spacing:
  "0 \<le> l \<Longrightarrow> lastRequestTime s + minRequestInterval s \<le> clock (awaitInterval l s)"
  by (auto simp: awaitInterval_def sleep_def Let_def)


lemma startOf_spacing:
  "0 \<le> intervalSkew env \<Longrightarrow> lastRequestTime s + minRequestInterval s \<le> startOf env s"
  using awaitInterval_spacing [of "intervalSkew env" "awaitPenalty (penaltyLate env) s"]
  by (simp add: startOf_def awaitPenalty_frame)



lemma iterate_frame:
  assumes "requestQueue s = r # rest"
  shows "minRequestInterval (iterate env s) = minRequestInterval s"
    and "defaultRetryDelay (iterate env s) = defaultRetryDelay s"
    and "maxRetryAttempts (iterate env s) = maxRetryAttempts s"
    and "nextPromise (iterate env s) = nextPromise s"
    and "lastRequestTime (iterate env s) = startOf env s"
    and "clock (iterate env s) = startOf env s + duration env"
    and "executions (iterate env s) = executions s @
           [\<lparr> ex_promise = promise r, ex_requestId = requestId r, ex_attempt = attempts r + 1,
              ex_startTime = startOf env s \<rparr>]"
  using assms
  by (simp_all add: iterate_def Let_def startOf_def awaitInterval_frame awaitPenalty_frame
      executeRequest_frame)




lemma spaced_snoc:
  "spaced d ts \<Longrightarrow> (ts \<noteq> [] \<longrightarrow> last ts + d \<le> t) \<Longrightarrow> spaced d (ts @ [t])"
  by (induction d ts rule: spaced.induct) auto

lemma step_frame_other:
  assumes "\<forall>env. e \<noteq> Iterate env"
  shows "minRequestInterval (step e s) = minRequestInterval s"
    and "maxRetryAttempts (step e s) = maxRetryAttempts s"
    and "lastRequestTime (step e s) = lastRequestTime s"
    and "executions (step e s) = executions s"
    and "penaltyActive (step e s) = penaltyActive s"
    and "penaltyEndTime (step e s) = penaltyEndTime s"
    and "settled (step e s) = settled s"
  using assms
  by (cases e; simp add: queueRequest_def processQueue_def retryCallback_def)+

lemma step_spacingInv:
  assumes "spacingInv s" and "punctual [e]"
  shows "spacingInv (step e s)"
proof (cases e)
  case (Iterate env)
  with assms(2) have skew: "0 \<le> intervalSkew env" by simp
  show ?thesis
  proof (cases "isProcessing s \<and> requestQueue s \<noteq> []")
    case False
    with Iterate assms show ?thesis by auto
  next
    case True
    then obtain r rest where q: "requestQueue s = r # rest" by (cases "requestQueue s") auto
    have sp: "spaced (minRequestInterval s) (map ex_startTime (executions s) @ [startOf env s])"
    proof (rule spaced_snoc)
      show "spaced (minRequestInterval s) (map ex_startTime (executions s))"
        using assms by (simp add: spacingInv_def)
      show "map ex_startTime (executions s) \<noteq> [] \<longrightarrow>
            last (map ex_startTime (executions s)) + minRequestInterval s \<le> startOf env s"
        using assms(1) startOf_spacing [OF skew, of s] by (simp add: spacingInv_def last_map)
    qed
    show ?thesis
      using Iterate True sp
      by (simp add: spacingInv_def iterate_frame [OF q])
  qed
next
  case (Enqueue fn rid)
  then have "\<forall>env. e \<noteq> Iterate env" by simp
  with assms show ?thesis by (simp add: spacingInv_def step_frame_other)
next
  case (Fire i)
  then have "\<forall>env. e \<noteq> Iterate env" by simp
  with assms show ?thesis by (simp add: spacingInv_def step_frame_other)
next
  case (Tick d)
  then have "\<forall>env. e \<noteq> Iterate env" by simp
  with assms show ?thesis by (simp add: spacingInv_def step_frame_other)
qed

lemma step_minRequestInterval: "minRequestInterval (step e s) = minRequestInterval s"
proof (cases e)
  case (Iterate env)
  then show ?thesis
    by (cases "requestQueue s") (simp_all add: iterate_frame)
qed (simp_all add: queueRequest_def processQueue_def retryCallback_def)

lemma step_maxRetryAttempts: "maxRetryAttempts (step e s) = maxRetryAttempts s"
proof (cases e)
  case (Iterate env)
  then show ?thesis
    by (cases "requestQueue s") (simp_all add: iterate_frame)
qed (simp_all add: queueRequest_def processQueue_def retryCallback_def)

lemma punctual_Cons: "punctual (e # es) = (punctual [e] \<and> punctual es)"
  by (cases e) simp_all

lemma run_spacingInv: "spacingInv s \<Longrightarrow> punctual evs \<Longrightarrow> spacingInv (run evs s)"
proof (induction evs arbitrary: s)
  case Nil
  then show ?case by simp
next
  case (Cons e es)
  from Cons.prems(2) have p: "punctual [e]" "punctual es"
    using punctual_Cons [of e es] by simp_all
  from step_spacingInv [OF Cons.prems(1) p(1)] have "spacingInv (step e s)" .
  from Cons.IH [OF this p(2)] show ?case by simp
qed

lemma run_minRequestInterval: "minRequestInterval (run evs s) = minRequestInterval s"
  by (induction evs arbitrary: s) (simp_all add: step_minRequestInterval)

lemma run_maxRetryAttempts: "maxRetryAttempts (run evs s) = maxRetryAttempts s"
  by (induction evs arbitrary: s) (simp_all add: step_maxRetryAttempts)

text \<open>
  C6 (as amended). The minimum interval is the configured one, 1000 ms when none is
  configured (TradovateClient configures 1500 ms), and never changes. Before a call
  the worker sleeps for what is left of the interval since the last call, once, and
  calls when it wakes, without reading the clock again. So a pass of the loop whose
  sleep does not end early calls at least the interval after the last call, and in
  every run of the gate in which no such sleep ends early the times of consecutive
  calls are at least the interval apart.
\<close>

theorem execution_spacing:
  "minRequestInterval (newRateLimiter opts now) = numOr (opt_minRequestInterval opts) 1000 \<and>
   minRequestInterval (run evs (newRateLimiter opts now)) = minRequestInterval (newRateLimiter opts now) \<and>
   (punctual evs \<longrightarrow>
      spaced (minRequestInterval (newRateLimiter opts now))
        (map ex_startTime (executions (run evs (newRateLimiter opts now))))) \<and>
   (0 \<le> intervalSkew env \<longrightarrow> lastRequestTime s + minRequestInterval s \<le> startOf env s)"
proof -
  have i: "spacingInv (newRateLimiter opts now)"
    by (simp add: spacingInv_def newRateLimiter_def)
  have "punctual evs \<longrightarrow>
      spaced (minRequestInterval (newRateLimiter opts now))
        (map ex_startTime (executions (run evs (newRateLimiter opts now))))"
  proof
    assume "punctual evs"
    from run_spacingInv [OF i this] show "spaced (minRequestInterval (newRateLimiter opts now))
        (map ex_startTime (executions (run evs (newRateLimiter opts now))))"
      by (simp add: spacingInv_def run_minRequestInterval)
  qed
  moreover have "minRequestInterval (newRateLimiter opts now) = numOr (opt_minRequestInterval opts) 1000"
    by (simp add: newRateLimiter_def)
  ultimately show ?thesis
    by (simp add: run_minRequestInterval startOf_spacing)
qed



lemma executeRequest_timed:
  assumes "result env = Returns (Data d)" and "\<not> truthyB (p_captcha d)"
      and "truthyS (p_ticket d)" and "p_time d = Val n" and "n \<noteq> 0"
  shows "attempts r + 1 < maxRetryAttempts s \<Longrightarrow>
           requestQueue (executeRequest env r s) = r\<lparr> attempts := attempts r + 1 \<rparr> # requestQueue s"
    and "attempts r + 1 < maxRetryAttempts s \<Longrightarrow>
           settled (executeRequest env r s) = settled s"
    and "\<not> attempts r + 1 < maxRetryAttempts s \<Longrightarrow>
           requestQueue (executeRequest env r s) = requestQueue s"
    and "\<not> attempts r + 1 < maxRetryAttempts s \<Longrightarrow>
           settled (executeRequest env r s) = settled s @ [(promise r, RejectedMaxRetry)]"
    and "retryTimers (executeRequest env r s) = retryTimers s"
    and "penaltyActive (executeRequest env r s)"
    and "penaltyEndTime (executeRequest env r s) = clock (executeRequest env r s) + n * 1000"
    and "currentPenaltyTicket (executeRequest env r s) = p_ticket d"
  using assms by (simp_all add: handler_defs)

lemma executeRequest_429:
  assumes "result env = Throws (HttpError (Some 429))"
  shows "attempts r + 1 < maxRetryAttempts s \<Longrightarrow>
           retryTimers (executeRequest env r s) = retryTimers s @
             [(clock (executeRequest env r s) + defaultRetryDelay s * 2 ^ (attempts r + 1 - 1),
               r\<lparr> attempts := attempts r + 1 \<rparr>)]"
    and "attempts r + 1 < maxRetryAttempts s \<Longrightarrow>
           settled (executeRequest env r s) = settled s"
    and "\<not> attempts r + 1 < maxRetryAttempts s \<Longrightarrow>
           retryTimers (executeRequest env r s) = retryTimers s"
    and "\<not> attempts r + 1 < maxRetryAttempts s \<Longrightarrow>
           settled (executeRequest env r s) =
             settled s @ [(promise r, RejectedError (HttpError (Some 429)))]"
    and "requestQueue (executeRequest env r s) = requestQueue s"
  using assms by (simp_all add: handler_defs)

lemma iterate_eq:
  assumes "requestQueue s = r # rest"
  shows "iterate env s =
           (let s2 = executeRequest env r (atCall env s)
            in if requestQueue s2 = [] then s2\<lparr> isProcessing := False \<rparr> else s2)"
  using assms by (simp add: iterate_def atCall_def Let_def awaitInterval_frame awaitPenalty_frame)

lemma atCall_frame:
  "requestQueue (atCall env s) = tl (requestQueue s)"
  "retryTimers (atCall env s) = retryTimers s"
  "settled (atCall env s) = settled s"
  "executions (atCall env s) = executions s"
  "maxRetryAttempts (atCall env s) = maxRetryAttempts s"
  "defaultRetryDelay (atCall env s) = defaultRetryDelay s"
  "nextPromise (atCall env s) = nextPromise s"
  by (simp_all add: atCall_def awaitInterval_frame awaitPenalty_frame)

lemma iterate_fields:
  assumes "requestQueue s = r # rest"
  shows "requestQueue (iterate env s) = requestQueue (executeRequest env r (atCall env s))"
    and "retryTimers (iterate env s) = retryTimers (executeRequest env r (atCall env s))"
    and "settled (iterate env s) = settled (executeRequest env r (atCall env s))"
    and "penaltyActive (iterate env s) = penaltyActive (executeRequest env r (atCall env s))"
    and "penaltyEndTime (iterate env s) = penaltyEndTime (executeRequest env r (atCall env s))"
    and "clock (iterate env s) = clock (executeRequest env r (atCall env s))"
    and "currentPenaltyTicket (iterate env s) = currentPenaltyTicket (executeRequest env r (atCall env s))"
  by (simp_all add: iterate_eq [OF assms] Let_def)





lemma executeRequest_outcomes:
  "(requestQueue (executeRequest env r s) = requestQueue s \<and>
      retryTimers (executeRequest env r s) = retryTimers s) \<or>
   (attempts r + 1 < maxRetryAttempts s \<and>
      requestQueue (executeRequest env r s) = r\<lparr> attempts := attempts r + 1 \<rparr> # requestQueue s \<and>
      retryTimers (executeRequest env r s) = retryTimers s) \<or>
   (attempts r + 1 < maxRetryAttempts s \<and>
      requestQueue (executeRequest env r s) = requestQueue s \<and>
      (\<exists>t. retryTimers (executeRequest env r s) =
             retryTimers s @ [(t, r\<lparr> attempts := attempts r + 1 \<rparr>)]))"
  by (simp add: handler_defs split: outcome.split response.split)

lemma iterate_pending:
  assumes "requestQueue s = r # rest"
  shows "pending (iterate env s) = rest @ map snd (retryTimers s) \<or>
         (attempts r + 1 < maxRetryAttempts s \<and>
          (pending (iterate env s) = r\<lparr> attempts := attempts r + 1 \<rparr> # rest @ map snd (retryTimers s) \<or>
           pending (iterate env s) = rest @ map snd (retryTimers s) @ [r\<lparr> attempts := attempts r + 1 \<rparr>]))"
  using executeRequest_outcomes [of env r "atCall env s"] assms
  by (auto simp: pending_def iterate_fields [OF assms] atCall_frame)

lemma timesExecuted_iterate:
  assumes "requestQueue s = r # rest"
  shows "timesExecuted p (iterate env s) = timesExecuted p s + (if p = promise r then 1 else 0)"
  by (simp add: timesExecuted_def iterate_frame(7) [OF assms])

lemma retryInv_iterate:
  assumes inv: "retryInv s" and q: "requestQueue s = r # rest"
  shows "retryInv (iterate env s)"
proof -
  let ?T = "map snd (retryTimers s)"
  let ?r' = "r\<lparr> attempts := attempts r + 1 \<rparr>"
  have pend: "pending s = r # rest @ ?T" using q by (simp add: pending_def)
  have dist: "distinct (map promise (r # rest @ ?T))" using inv pend by (simp add: retryInv_def)
  have ofr: "promise r < nextPromise s" "attempts r < maxRetryAttempts s"
    "timesExecuted (promise r) s = attempts r"
    using inv pend by (simp_all add: retryInv_def)
  have nr: "promise r \<notin> set (map promise (rest @ ?T))" using dist by simp
  have old: "\<forall>x\<in>set (pending s). promise x < nextPromise s \<and> attempts x < maxRetryAttempts s \<and>
               timesExecuted (promise x) s = attempts x"
    using inv by (simp add: retryInv_def)
  have others: "\<forall>x\<in>set (rest @ ?T). promise x \<noteq> promise r \<and> promise x < nextPromise s \<and>
                  attempts x < maxRetryAttempts s \<and> timesExecuted (promise x) s = attempts x"
  proof
    fix x assume x: "x \<in> set (rest @ ?T)"
    then have "promise x \<in> set (map promise (rest @ ?T))" by (metis imageI set_map)
    with nr have ne: "promise x \<noteq> promise r" by metis
    from x have "x \<in> set (pending s)" by (simp add: pend)
    with old ne show "promise x \<noteq> promise r \<and> promise x < nextPromise s \<and>
        attempts x < maxRetryAttempts s \<and> timesExecuted (promise x) s = attempts x" by blast
  qed
  have bound: "\<forall>p. timesExecuted p (iterate env s) \<le> maxRetryAttempts s"
  proof
    fix p
    show "timesExecuted p (iterate env s) \<le> maxRetryAttempts s"
    proof (cases "p = promise r")
      case True
      then show ?thesis using ofr by (simp add: timesExecuted_iterate [OF q])
    next
      case False
      then show ?thesis using inv by (simp add: timesExecuted_iterate [OF q] retryInv_def)
    qed
  qed
  have execs: "\<forall>e\<in>set (executions (iterate env s)). ex_promise e < nextPromise s"
    using inv ofr(1) by (auto simp: iterate_frame(7) [OF q] retryInv_def)
  have keep: "\<forall>x\<in>set (rest @ ?T). promise x < nextPromise s \<and> attempts x < maxRetryAttempts s \<and>
                timesExecuted (promise x) (iterate env s) = attempts x"
    using others by (simp add: timesExecuted_iterate [OF q])
  have new: "timesExecuted (promise ?r') (iterate env s) = attempts ?r'"
    using ofr(3) by (simp add: timesExecuted_iterate [OF q])
  have base: "0 < maxRetryAttempts s" using inv by (simp add: retryInv_def)
  from iterate_pending [OF q, of env] consider
      (gone) "pending (iterate env s) = rest @ ?T"
    | (front) "attempts r + 1 < maxRetryAttempts s" "pending (iterate env s) = ?r' # rest @ ?T"
    | (timer) "attempts r + 1 < maxRetryAttempts s" "pending (iterate env s) = rest @ ?T @ [?r']"
    by blast
  then show ?thesis
  proof cases
    case gone
    have "distinct (map promise (rest @ ?T))" using dist by simp
    with gone keep execs bound base show ?thesis
      unfolding retryInv_def by (simp add: iterate_frame(3,4) [OF q])
  next
    case front
    have "distinct (map promise (?r' # rest @ ?T))" using dist by simp
    moreover have "\<forall>x\<in>set (?r' # rest @ ?T). promise x < nextPromise s \<and>
        attempts x < maxRetryAttempts s \<and> timesExecuted (promise x) (iterate env s) = attempts x"
      using keep new front(1) ofr(1) by simp
    ultimately show ?thesis
      using front(2) execs bound base
      unfolding retryInv_def by (simp only: iterate_frame(3,4) [OF q]) simp
  next
    case timer
    have "distinct (map promise (rest @ ?T @ [?r']))" using dist by auto
    moreover have "\<forall>x\<in>set (rest @ ?T @ [?r']). promise x < nextPromise s \<and>
        attempts x < maxRetryAttempts s \<and> timesExecuted (promise x) (iterate env s) = attempts x"
      using keep new timer(1) ofr(1) by auto
    ultimately show ?thesis
      using timer(2) execs bound base
      unfolding retryInv_def by (simp only: iterate_frame(3,4) [OF q]) simp
  qed
qed

lemma retryInv_queueRequest:
  assumes inv: "retryInv s"
  shows "retryInv (queueRequest fn rid s)"
proof -
  let ?n = "\<lparr> requestFn = fn, requestId = rid, promise = nextPromise s, attempts = 0, createdAt = clock s \<rparr>"
  have pend: "pending (queueRequest fn rid s) = requestQueue s @ ?n # map snd (retryTimers s)"
    by (simp add: pending_def queueRequest_def processQueue_def)
  have ex: "executions (queueRequest fn rid s) = executions s"
    and np: "nextPromise (queueRequest fn rid s) = nextPromise s + 1"
    and mx: "maxRetryAttempts (queueRequest fn rid s) = maxRetryAttempts s"
    by (simp_all add: queueRequest_def processQueue_def)
  have te: "timesExecuted p (queueRequest fn rid s) = timesExecuted p s" for p
    by (simp add: timesExecuted_def ex)
  have zero: "timesExecuted (nextPromise s) s = 0"
    using inv by (auto simp: retryInv_def timesExecuted_def filter_empty_conv)
  have old: "\<forall>r\<in>set (pending s). promise r < nextPromise s \<and> attempts r < maxRetryAttempts s \<and>
               timesExecuted (promise r) s = attempts r"
    using inv by (simp add: retryInv_def)
  have fresh: "nextPromise s \<notin> promise ` set (pending s)" using old by auto
  have dist: "distinct (map promise (requestQueue s @ ?n # map snd (retryTimers s)))"
    using inv fresh by (auto simp: retryInv_def pending_def)
  have pos: "0 < maxRetryAttempts s" using inv by (simp add: retryInv_def)
  have all: "\<forall>r\<in>set (requestQueue s @ ?n # map snd (retryTimers s)).
               promise r < nextPromise s + 1 \<and> attempts r < maxRetryAttempts s \<and>
               timesExecuted (promise r) s = attempts r"
  proof
    fix x assume "x \<in> set (requestQueue s @ ?n # map snd (retryTimers s))"
    then consider "x = ?n" | "x \<in> set (pending s)" by (auto simp: pending_def)
    then show "promise x < nextPromise s + 1 \<and> attempts x < maxRetryAttempts s \<and>
               timesExecuted (promise x) s = attempts x"
    proof cases
      case 1
      then show ?thesis using zero pos by simp
    next
      case 2
      with old have "promise x < nextPromise s \<and> attempts x < maxRetryAttempts s \<and>
               timesExecuted (promise x) s = attempts x" by blast
      then show ?thesis by simp
    qed
  qed
  have execs: "\<forall>e\<in>set (executions s). ex_promise e < nextPromise s + 1"
    using inv by (auto simp: retryInv_def)
  show ?thesis
    unfolding retryInv_def
    using dist all execs inv by (simp only: pend ex np mx te) (simp add: retryInv_def)
qed

lemma retryInv_fire:
  assumes inv: "retryInv s" and i: "i < length (retryTimers s)"
  shows "retryInv (retryCallback (snd (retryTimers s ! i))
                     (s\<lparr> retryTimers := take i (retryTimers s) @ drop (Suc i) (retryTimers s) \<rparr>))"
    (is "retryInv ?s'")
proof -
  let ?T = "retryTimers s"
  have pend: "pending ?s' = snd (?T ! i) # requestQueue s @ map snd (take i ?T @ drop (Suc i) ?T)"
    by (simp add: pending_def retryCallback_def processQueue_def)
  have split: "?T = take i ?T @ ?T ! i # drop (Suc i) ?T" using i by (rule id_take_nth_drop)
  have "mset (pending s) = mset (requestQueue s) + mset (map snd (take i ?T @ ?T ! i # drop (Suc i) ?T))"
    unfolding pending_def using split by simp
  then have ms: "mset (pending ?s') = mset (pending s)" by (simp add: pend)
  have ms': "mset (map promise (pending ?s')) = mset (map promise (pending s))"
    using ms by (metis mset_map)
  have st: "set (pending ?s') = set (pending s)" using ms by (rule mset_eq_setD)
  have dist: "distinct (map promise (pending ?s'))"
    using inv mset_eq_imp_distinct_iff [OF ms'] by (simp add: retryInv_def)
  have ex: "executions ?s' = executions s" and np: "nextPromise ?s' = nextPromise s"
    and mx: "maxRetryAttempts ?s' = maxRetryAttempts s"
    by (simp_all add: retryCallback_def processQueue_def)
  have te: "timesExecuted p ?s' = timesExecuted p s" for p
    by (simp add: timesExecuted_def ex)
  show ?thesis
    unfolding retryInv_def using inv dist
    by (simp only: st ex np mx te) (simp add: retryInv_def)
qed

lemma retryInv_step:
  assumes "retryInv s"
  shows "retryInv (step e s)"
proof (cases e)
  case (Enqueue fn rid)
  with assms show ?thesis by (simp add: retryInv_queueRequest)
next
  case (Fire i)
  with assms show ?thesis by (simp add: retryInv_fire)
next
  case (Iterate env)
  show ?thesis
  proof (cases "requestQueue s")
    case Nil
    with Iterate assms show ?thesis by simp
  next
    case (Cons r rest)
    with Iterate assms show ?thesis by (simp add: retryInv_iterate)
  qed
next
  case (Tick d)
  with assms show ?thesis by (simp add: retryInv_def pending_def timesExecuted_def)
qed

lemma retryInv_run: "retryInv s \<Longrightarrow> retryInv (run evs s)"
  by (induction evs arbitrary: s) (simp_all add: retryInv_step)

lemma retryInv_new: "retryInv (newRateLimiter opts now)"
  by (simp add: retryInv_def newRateLimiter_def pending_def timesExecuted_def numOr_def
      split: field.split)

lemma timesExecuted_bound:
  "timesExecuted p (run evs (newRateLimiter opts now)) \<le> maxRetryAttempts (newRateLimiter opts now)"
  using retryInv_run [OF retryInv_new, of evs opts now]
  by (simp add: retryInv_def run_maxRetryAttempts)


text \<open>
  C2 (as amended). When the response of an executed request carries a ticket and
  non-zero wait seconds and no CAPTCHA marker, the penalty window is set to the wait
  and the attempt counter is incremented; below the cap the same request is put back
  at the front of the queue, at the cap it is rejected with the error of the
  exhausted retries. When the call fails with status 429, the counter is incremented;
  below the cap a timer of \<open>defaultRetryDelay * 2 ^ (attempts - 1)\<close> ms is set, and
  when it goes off the request is put at the front of the queue; at the cap the
  request is rejected with the error. In every run of the gate the thunk of a request
  is called at most \<open>maxRetryAttempts\<close> times, 3 unless configured otherwise.
\<close>

theorem retry_capped:
  "(isProcessing s \<and> requestQueue s = r # rest \<and> result env = Returns (Data d) \<and>
    \<not> truthyB (p_captcha d) \<and> truthyS (p_ticket d) \<and> p_time d = Val n \<and> n \<noteq> 0 \<longrightarrow>
      penaltyActive (step (Iterate env) s) \<and>
      penaltyEndTime (step (Iterate env) s) = clock (step (Iterate env) s) + n * 1000 \<and>
      retryTimers (step (Iterate env) s) = retryTimers s \<and>
      (if attempts r + 1 < maxRetryAttempts s
       then requestQueue (step (Iterate env) s) = r\<lparr> attempts := attempts r + 1 \<rparr> # rest \<and>
            settled (step (Iterate env) s) = settled s
       else requestQueue (step (Iterate env) s) = rest \<and>
            settled (step (Iterate env) s) = settled s @ [(promise r, RejectedMaxRetry)])) \<and>
   (isProcessing s \<and> requestQueue s = r # rest \<and> result env = Throws (HttpError (Some 429)) \<longrightarrow>
      requestQueue (step (Iterate env) s) = rest \<and>
      (if attempts r + 1 < maxRetryAttempts s
       then retryTimers (step (Iterate env) s) = retryTimers s @
              [(clock (step (Iterate env) s) + defaultRetryDelay s * 2 ^ (attempts r + 1 - 1),
                r\<lparr> attempts := attempts r + 1 \<rparr>)] \<and>
            settled (step (Iterate env) s) = settled s
       else retryTimers (step (Iterate env) s) = retryTimers s \<and>
            settled (step (Iterate env) s) =
              settled s @ [(promise r, RejectedError (HttpError (Some 429)))])) \<and>
   (i < length (retryTimers s) \<and> fst (retryTimers s ! i) \<le> clock s \<longrightarrow>
      requestQueue (step (Fire i) s) = snd (retryTimers s ! i) # requestQueue s) \<and>
   timesExecuted p (run evs (newRateLimiter opts now)) \<le> maxRetryAttempts (newRateLimiter opts now) \<and>
   maxRetryAttempts (newRateLimiter opts now) = numOr (opt_maxRetryAttempts opts) 3"
proof (intro conjI impI)
  assume a: "isProcessing s \<and> requestQueue s = r # rest \<and> result env = Returns (Data d) \<and>
    \<not> truthyB (p_captcha d) \<and> truthyS (p_ticket d) \<and> p_time d = Val n \<and> n \<noteq> 0"
  then have q: "requestQueue s = r # rest" and st: "step (Iterate env) s = iterate env s" by simp_all
  note ex = executeRequest_timed [of env d n r "atCall env s"]
  from a show "penaltyActive (step (Iterate env) s)"
    by (simp only: st iterate_fields [OF q]) (simp add: ex)
  from a show "penaltyEndTime (step (Iterate env) s) = clock (step (Iterate env) s) + n * 1000"
    by (simp only: st iterate_fields [OF q]) (simp add: ex)
  from a show "retryTimers (step (Iterate env) s) = retryTimers s"
    by (simp only: st iterate_fields [OF q]) (simp add: ex atCall_frame)
  from a show "if attempts r + 1 < maxRetryAttempts s
       then requestQueue (step (Iterate env) s) = r\<lparr> attempts := attempts r + 1 \<rparr> # rest \<and>
            settled (step (Iterate env) s) = settled s
       else requestQueue (step (Iterate env) s) = rest \<and>
            settled (step (Iterate env) s) = settled s @ [(promise r, RejectedMaxRetry)]"
    by (simp only: st iterate_fields [OF q]) (simp add: ex atCall_frame)
next
  assume a: "isProcessing s \<and> requestQueue s = r # rest \<and> result env = Throws (HttpError (Some 429))"
  then have q: "requestQueue s = r # rest" and st: "step (Iterate env) s = iterate env s" by simp_all
  note ex = executeRequest_429 [of env r "atCall env s"]
  from a show "requestQueue (step (Iterate env) s) = rest"
    by (simp only: st iterate_fields [OF q]) (simp add: ex atCall_frame)
  from a show "if attempts r + 1 < maxRetryAttempts s
       then retryTimers (step (Iterate env) s) = retryTimers s @
              [(clock (step (Iterate env) s) + defaultRetryDelay s * 2 ^ (attempts r + 1 - 1),
                r\<lparr> attempts := attempts r + 1 \<rparr>)] \<and>
            settled (step (Iterate env) s) = settled s
       else retryTimers (step (Iterate env) s) = retryTimers s \<and>
            settled (step (Iterate env) s) =
              settled s @ [(promise r, RejectedError (HttpError (Some 429)))]"
    by (simp only: st iterate_fields [OF q]) (simp add: ex atCall_frame)
next
  assume "i < length (retryTimers s) \<and> fst (retryTimers s ! i) \<le> clock s"
  then show "requestQueue (step (Fire i) s) = snd (retryTimers s ! i) # requestQueue s"
    by (simp add: retryCallback_def processQueue_def)
next
  show "timesExecuted p (run evs (newRateLimiter opts now)) \<le> maxRetryAttempts (newRateLimiter opts now)"
    by (rule timesExecuted_bound)
next
  show "maxRetryAttempts (newRateLimiter opts now) = numOr (opt_maxRetryAttempts opts) 3"
    by (simp add: newRateLimiter_def)
qed

section \<open>The gate on concrete runs\<close>


lemmas gate_eval = newRateLimiter_def clientOptions_def noOptions_def numOr_def queueRequest_def
  processQueue_def iterate_def awaitPenalty_def awaitInterval_def sleep_def executeRequest_def
  updateStats_def isPenaltyResponse_def handlePenaltyResponse_def handleRequestError_def
  reject_def resolve_def retryCallback_def turnOf_def timedPenalty_def captchaPenalty_def
  bothPenalties_def isHealthy_def timesExecuted_def Let_def

theorem execution_spacing_witness:
  "minRequestInterval (newRateLimiter clientOptions 1000000) = 1500 \<and>
   punctual [Enqueue 1 ''a'', Enqueue 2 ''b'',
       Iterate (turnOf (Returns NoData)), Iterate (turnOf (Returns NoData))] \<and>
   map ex_startTime (executions (run [Enqueue 1 ''a'', Enqueue 2 ''b'',
       Iterate (turnOf (Returns NoData)), Iterate (turnOf (Returns NoData))]
       (newRateLimiter clientOptions 1000000))) = [1000000, 1001500] \<and>
   spaced 1500 [1000000, 1001500] \<and>
   0 \<le> intervalSkew (turnOf (Returns NoData)) \<and>
   startOf (turnOf (Returns NoData))
     (run [Enqueue 1 ''a'', Enqueue 2 ''b'', Iterate (turnOf (Returns NoData))]
        (newRateLimiter clientOptions 1000000)) = 1001500"
  using execution_spacing [of clientOptions 1000000 "[Enqueue 1 ''a'', Enqueue 2 ''b'',
       Iterate (turnOf (Returns NoData)), Iterate (turnOf (Returns NoData))]"
       "turnOf (Returns NoData)"
       "run [Enqueue 1 ''a'', Enqueue 2 ''b'', Iterate (turnOf (Returns NoData))]
          (newRateLimiter clientOptions 1000000)"]
  by (simp add: gate_eval startOf_def)

text \<open>
  The claim as stated fails twice: the gate's default interval is 1 s, not 1.5 s; and
  when the sleep for the rest of the interval ends one millisecond early, the second
  call comes 1499 ms after the first although 1500 ms are configured.
\<close>

theorem execution_spacing_counterexample:
  "minRequestInterval (newRateLimiter noOptions 1000000) = 1000 \<and>
   minRequestInterval (newRateLimiter noOptions 1000000) \<noteq> 1500 \<and>
   minRequestInterval (newRateLimiter clientOptions 1000000) = 1500 \<and>
   map ex_startTime (executions (run [Enqueue 1 ''a'', Enqueue 2 ''b'',
       Iterate (turnOf (Returns NoData)), Iterate earlyTurn]
       (newRateLimiter clientOptions 1000000))) = [1000000, 1001499] \<and>
   \<not> spaced 1500 [1000000, 1001499]"
  by (simp add: gate_eval earlyTurn_def)


theorem retry_capped_witness:
  "requestQueue (step (Iterate (turnOf (Returns (Data timedPenalty))))
      (step (Enqueue 1 ''a'') (newRateLimiter clientOptions 1000000))) =
     [\<lparr> requestFn = 1, requestId = ''a'', promise = 0, attempts = 1, createdAt = 1000000 \<rparr>] \<and>
   retryTimers (step (Iterate (turnOf (Throws (HttpError (Some 429)))))
      (step (Enqueue 1 ''a'') (newRateLimiter clientOptions 1000000))) =
     [(1000040 + 5000, \<lparr> requestFn = 1, requestId = ''a'', promise = 0, attempts = 1, createdAt = 1000000 \<rparr>)] \<and>
   timesExecuted 0 (run [Enqueue 1 ''a'', Iterate (turnOf (Returns (Data timedPenalty))),
      Iterate (turnOf (Returns (Data timedPenalty))), Iterate (turnOf (Returns (Data timedPenalty)))]
      (newRateLimiter clientOptions 1000000)) = 3 \<and>
   settled (run [Enqueue 1 ''a'', Iterate (turnOf (Returns (Data timedPenalty))),
      Iterate (turnOf (Returns (Data timedPenalty))), Iterate (turnOf (Returns (Data timedPenalty)))]
      (newRateLimiter clientOptions 1000000)) = [(0, RejectedMaxRetry)] \<and>
   maxRetryAttempts (newRateLimiter clientOptions 1000000) = 3"
proof -
  let ?s = "step (Enqueue 1 ''a'') (newRateLimiter clientOptions 1000000)"
  let ?r = "\<lparr> requestFn = 1, requestId = ''a'', promise = 0, attempts = 0, createdAt = 1000000 \<rparr>"
  let ?evs = "[Enqueue 1 ''a'', Iterate (turnOf (Returns (Data timedPenalty))),
      Iterate (turnOf (Returns (Data timedPenalty))), Iterate (turnOf (Returns (Data timedPenalty)))]"
  have h: "isProcessing ?s" "requestQueue ?s = ?r # []" "maxRetryAttempts ?s = 3"
    "defaultRetryDelay ?s = 5000" "retryTimers ?s = []"
    by (simp_all add: gate_eval)
  have p: "result (turnOf (Returns (Data timedPenalty))) = Returns (Data timedPenalty)"
    "\<not> truthyB (p_captcha timedPenalty)" "truthyS (p_ticket timedPenalty)"
    "p_time timedPenalty = Val 5"
    by (simp_all add: turnOf_def timedPenalty_def)
  have e: "result (turnOf (Throws (HttpError (Some 429)))) = Throws (HttpError (Some 429))"
    by (simp add: turnOf_def)
  have c: "clock (step (Iterate (turnOf (Throws (HttpError (Some 429))))) ?s) = 1000040"
    by (simp add: gate_eval)
  have a: "requestQueue (step (Iterate (turnOf (Returns (Data timedPenalty)))) ?s) = [?r\<lparr> attempts := 1 \<rparr>]"
    using retry_capped [of ?s ?r "[]" "turnOf (Returns (Data timedPenalty))" timedPenalty 5
        0 0 "[]" clientOptions 1000000] h p
    by (simp del: step.simps run.simps)
  have b: "retryTimers (step (Iterate (turnOf (Throws (HttpError (Some 429))))) ?s) =
             [(1000040 + 5000, ?r\<lparr> attempts := 1 \<rparr>)]"
    using retry_capped [of ?s ?r "[]" "turnOf (Throws (HttpError (Some 429)))" timedPenalty 5
        0 0 "[]" clientOptions 1000000] h e c
    by (simp del: step.simps run.simps)
  have t: "timesExecuted 0 (run ?evs (newRateLimiter clientOptions 1000000)) = 3"
    by (simp add: gate_eval)
  have s: "settled (run ?evs (newRateLimiter clientOptions 1000000)) = [(0, RejectedMaxRetry)]"
    by (simp add: gate_eval)
  have m: "maxRetryAttempts (newRateLimiter clientOptions 1000000) = 3"
    by (simp add: gate_eval)
  from a b t s m show ?thesis by (simp del: step.simps run.simps)
qed

text \<open>
  The claim as stated fails: a response that carries a ticket and wait seconds and
  also a CAPTCHA marker is of the CAPTCHA class; the request is rejected on its first
  attempt and is not put back.
\<close>

theorem retry_capped_counterexample:
  "truthyS (p_ticket bothPenalties) \<and> truthyN (p_time bothPenalties) \<and>
   requestQueue (run [Enqueue 1 ''a'', Iterate (turnOf (Returns (Data bothPenalties)))]
      (newRateLimiter clientOptions 1000000)) = [] \<and>
   map ex_attempt (executions (run [Enqueue 1 ''a'', Iterate (turnOf (Returns (Data bothPenalties)))]
      (newRateLimiter clientOptions 1000000))) = [1] \<and>
   settled (run [Enqueue 1 ''a'', Iterate (turnOf (Returns (Data bothPenalties)))]
      (newRateLimiter clientOptions 1000000)) = [(0, RejectedCaptcha)]"
  by (simp add: gate_eval)

section \<open>The collector: the stored mode and manual overrides\<close>

declare checkPollingModeChange.simps [simp del]
declare restartAccountPolling.simps [simp del]
declare initializeAccountPolling.simps [simp del]
declare handleRateLimit.simps [simp del]

lemma startPollingTimer_frame:
  "dataCache (snd (startPollingTimer a k ts s)) = dataCache s"
  "reversions (snd (startPollingTimer a k ts s)) = reversions s"
  "clockNow (snd (startPollingTimer a k ts s)) = clockNow s"
  "feed (snd (startPollingTimer a k ts s)) = feed s"
  by (simp_all add: startPollingTimer_def clearTimeout_def Let_def split: option.split)

lemma clearTimeout_frame:
  "dataCache (clearTimeout h s) = dataCache s"
  "reversions (clearTimeout h s) = reversions s"
  "clockNow (clearTimeout h s) = clockNow s"
  "feed (clearTimeout h s) = feed s"
  "timers (clearTimeout h s) = timers s"
  by (simp_all add: clearTimeout_def split: option.split)

lemma clearAccountTimers_frame:
  "dataCache (clearAccountTimers a s) = dataCache s"
  "reversions (clearAccountTimers a s) = reversions s"
  "clockNow (clearAccountTimers a s) = clockNow s"
  by (simp_all add: clearAccountTimers_def clearTimeout_frame split: option.split)

lemma ensureAccount_frame:
  "isInitialized (dataCache (ensureAccount a s)) = isInitialized (dataCache s)"
  "reversions (ensureAccount a s) = reversions s"
  by (simp_all add: ensureAccount_def cacheAccountData_def split: option.split)

lemma written_frame:
  "cacheOrders a os t c = Inr c' \<Longrightarrow> isInitialized c' = isInitialized c"
  "cachePositions a ps t c = Inr c' \<Longrightarrow> isInitialized c' = isInitialized c"
  "cacheAccountBalance a t c = Inr c' \<Longrightarrow> isInitialized c' = isInitialized c"
  "updatePollingState a m r t c = Inr c' \<Longrightarrow> isInitialized c' = isInitialized c"
  by (auto simp: cacheOrders_def cachePositions_def cacheAccountBalance_def updatePollingState_def
      split: if_splits)

lemma enrichOrdersInBackground_frame:
  "isInitialized (dataCache (enrichOrdersInBackground a bs s)) = isInitialized (dataCache s)"
  "reversions (enrichOrdersInBackground a bs s) = reversions s"
  by (auto simp: enrichOrdersInBackground_def Let_def ensureAccount_frame written_frame
      split: sum.split)

lemma getOrders_frame:
  assumes "getOrders a raw s = (r, s')"
  shows "isInitialized (dataCache s') = isInitialized (dataCache s) \<and> reversions s' = reversions s"
  using assms
  by (auto simp: getOrders_def Let_def enrichOrdersInBackground_frame ensureAccount_frame
      written_frame split: if_splits sum.splits)

lemma cacheFetched_frame:
  assumes "cacheFetched a k b s = (r, s')"
  shows "isInitialized (dataCache s') = isInitialized (dataCache s) \<and> reversions s' = reversions s"
proof (cases k)
  case Orders
  with assms show ?thesis by (simp add: cacheFetched_def getOrders_frame)
next
  case Balance
  with assms show ?thesis
    by (auto simp: cacheFetched_def Let_def ensureAccount_frame written_frame
        split: if_splits sum.splits)
next
  case Positions
  with assms show ?thesis
    by (auto simp: cacheFetched_def Let_def ensureAccount_frame written_frame
        split: if_splits sum.splits)
qed

lemma schedulePolling_frame:
  assumes "schedulePolling a s = (r, s')"
  shows "isInitialized (dataCache s') = isInitialized (dataCache s) \<and> reversions s' = reversions s"
  using assms
  by (auto simp: schedulePolling_def Let_def split_beta startPollingTimer_frame written_frame
      split: sum.splits)

lemma preserved:
  "pollDataType n a k s = Some (ok, s') \<Longrightarrow>
     isInitialized (dataCache s') = isInitialized (dataCache s) \<and> reversions s' = reversions s"
  "checkPollingModeChange n a s = Some (r, s') \<Longrightarrow>
     isInitialized (dataCache s') = isInitialized (dataCache s) \<and> reversions s' = reversions s"
  "restartAccountPolling n a s = Some (r, s') \<Longrightarrow>
     isInitialized (dataCache s') = isInitialized (dataCache s) \<and> reversions s' = reversions s"
  "initializeAccountPolling n a s = Some (r, s') \<Longrightarrow>
     isInitialized (dataCache s') = isInitialized (dataCache s) \<and> reversions s' = reversions s"
  "handleRateLimit n a s = Some (r, s') \<Longrightarrow>
     isInitialized (dataCache s') = isInitialized (dataCache s) \<and> reversions s' = reversions s"
proof (induction n a k s and n a s and n a s and n a s and n a s arbitrary: ok s' and r s' and r s' and r s' and r s'
    rule: pollDataType_checkPollingModeChange_restartAccountPolling_initializeAccountPolling_handleRateLimit.induct)
  case (1 a k s)
  then show ?case by simp
next
  case (2 n a k s)
  show ?case
  proof (cases "feed s")
    case Nil
    with 2(3) show ?thesis by simp
  next
    case (Cons f answers)
    show ?thesis
    proof (cases f)
      case (Failed elapsed rateLimit)
      show ?thesis
      proof (cases rateLimit)
        case True
        with 2(3) Cons Failed obtain r2 where
          h: "handleRateLimit n a (s\<lparr> feed := answers, clockNow := clockNow s + elapsed \<rparr>) = Some (r2, s')"
          by (auto simp: Let_def split: option.splits completion.splits)
        from 2(2) [OF Cons Failed refl True h] show ?thesis by simp
      next
        case False
        with 2(3) Cons Failed show ?thesis by (auto simp: Let_def)
      qed
    next
      case (Fetched elapsed b)
      let ?s1 = "s\<lparr> feed := answers, clockNow := clockNow s + elapsed \<rparr>"
      obtain c s2 where cf: "cacheFetched a k b ?s1 = (c, s2)" by (cases "cacheFetched a k b ?s1")
      from cacheFetched_frame [OF cf]
      have f: "isInitialized (dataCache s2) = isInitialized (dataCache s) \<and> reversions s2 = reversions s"
        by simp
      show ?thesis
      proof (cases c)
        case Threw
        with 2(3) Cons Fetched cf have "s' = s2" by (simp add: Let_def)
        with f show ?thesis by simp
      next
        case (Returned u)
        with 2(3) Cons Fetched cf obtain r3 where
          c3: "checkPollingModeChange n a s2 = Some (r3, s')"
          by (auto simp: Let_def split: option.splits completion.splits)
        from 2(1) [OF Cons Fetched refl cf [symmetric] Returned c3] f show ?thesis by simp
      qed
    qed
  qed
next
  case (3 n a s)
  show ?case
  proof (cases "getPollingState a (dataCache s)")
    case None
    with 3(2) show ?thesis by (simp add: checkPollingModeChange.simps)
  next
    case (Some currentState)
    let ?info = "determinePollingMode a (clockNow s) (dataCache s)"
    show ?thesis
    proof (cases "current_mode currentState \<noteq> pi_mode ?info")
      case False
      with 3(2) Some show ?thesis by (simp add: Let_def checkPollingModeChange.simps)
    next
      case True
      show ?thesis
      proof (cases "updatePollingState a (pi_mode ?info) (pi_reason ?info) (clockNow s) (dataCache s)")
        case (Inl e)
        with 3(2) Some True show ?thesis by (simp add: Let_def checkPollingModeChange.simps)
      next
        case (Inr c)
        with 3(2) Some True have r: "restartAccountPolling n a (s\<lparr> dataCache := c \<rparr>) = Some (r, s')"
          by (simp add: Let_def checkPollingModeChange.simps)
        from 3(1) [OF Some refl True Inr r] written_frame(4) [OF Inr] show ?thesis by simp
      qed
    qed
  qed
next
  case (4 n a s)
  from 4(2) have i: "initializeAccountPolling n a (clearAccountTimers a s) = Some (r, s')"
    by (simp add: restartAccountPolling.simps)
  from 4(1) [OF i] show ?case by (simp add: clearAccountTimers_frame)
next
  case (5 n a s)
  from 5(3) obtain r1 s1 where p1: "pollDataType n a Positions s = Some (r1, s1)"
    by (auto simp: initializeAccountPolling.simps split: option.splits)
  have a1: "isInitialized (dataCache s1) = isInitialized (dataCache s) \<and> reversions s1 = reversions s"
    by (rule 5(1) [OF p1])
  show ?case
  proof (cases r1)
    case Threw
    with 5(3) p1 have "schedulePolling a s1 = (r, s')"
      by (simp add: initializeAccountPolling.simps)
    from schedulePolling_frame [OF this] a1 show ?thesis by simp
  next
    case (Returned ok1)
    with 5(3) p1 obtain r2 s2 where p2: "pollDataType n a Orders s1 = Some (r2, s2)"
      and sp: "schedulePolling a s2 = (r, s')"
      by (auto simp: initializeAccountPolling.simps split: option.splits)
    have a2: "isInitialized (dataCache s2) = isInitialized (dataCache s1) \<and> reversions s2 = reversions s1"
      by (rule 5(2) [OF p1 refl Returned p2])
    from schedulePolling_frame [OF sp] a1 a2 show ?thesis by simp
  qed
next
  case (6 n a s)
  show ?case
  proof (cases "updatePollingState a IDLE RateLimitProtection (clockNow s) (dataCache s)")
    case (Inl e)
    with 6(2) show ?thesis by (simp add: handleRateLimit.simps)
  next
    case (Inr c)
    with 6(2) have r: "restartAccountPolling n a (s\<lparr> dataCache := c \<rparr>) = Some (r, s')"
      by (simp add: handleRateLimit.simps)
    from 6(1) [OF Inr r] written_frame(4) [OF Inr] show ?thesis by simp
  qed
qed

lemma determine_mode_cases:
  "pi_mode (determinePollingMode a t c) =
     (if pi_openPositions (determinePollingMode a t c) = 0 \<and> pi_workingOrders (determinePollingMode a t c) = 0
      then IDLE
      else if pi_openPositions (determinePollingMode a t c) > 2 \<or> pi_workingOrders (determinePollingMode a t c) > 3
      then CRITICAL else ACTIVE)"
  "pi_openPositions (determinePollingMode a t c) =
     (case getCachedPositions a t c of None \<Rightarrow> 0 | Some p \<Rightarrow> openPositionsCount p)"
  "pi_workingOrders (determinePollingMode a t c) =
     (case getCachedOrders a t c of None \<Rightarrow> 0 | Some p \<Rightarrow> workingOrdersCount p)"
  by (simp_all add: determinePollingMode_def Let_def)

lemma determine_mode_frame:
  assumes "isInitialized c' = isInitialized c" and "positions_cache c' = positions_cache c"
      and "orders_cache c' = orders_cache c"
  shows "pi_mode (determinePollingMode a t' c') = pi_mode (determinePollingMode a t c)"
  using assms
  by (simp add: determinePollingMode_def getCachedPositions_def getCachedOrders_def Let_def
      split: option.split)

text \<open>A write of the polling state that returns, on an initialized cache.\<close>

lemma updatePollingState_written:
  assumes "updatePollingState a m r t c = Inr c'" and "isInitialized c"
  shows "map_option current_mode (getPollingState a c') = Some m"
    and "isInitialized c'" and "positions_cache c' = positions_cache c"
    and "orders_cache c' = orders_cache c"
  using assms by (auto simp: getPollingState_def updatePollingState_def split: if_splits)

lemma schedulePolling_stored:
  assumes "schedulePolling a s = (Returned u, s')" and "isInitialized (dataCache s)"
  shows "storedMode a s' = Some (pi_mode (determinePollingMode a t (dataCache s')))"
proof -
  let ?info = "determinePollingMode a (clockNow s) (dataCache s)"
  from assms(1) obtain c where
    w: "updatePollingState a (pi_mode ?info) (pi_reason ?info) (clockNow s) (dataCache s) = Inr c"
    and d: "dataCache s' = c"
    by (auto simp: schedulePolling_def Let_def split_beta startPollingTimer_frame split: sum.splits)
  note u = updatePollingState_written [OF w assms(2)]
  have m: "pi_mode (determinePollingMode a t c) = pi_mode ?info"
    by (rule determine_mode_frame) (simp_all add: u assms(2))
  show ?thesis
    unfolding storedMode_def d m by (rule u(1))
qed

lemma initialize_stored:
  assumes "initializeAccountPolling n a s = Some (Returned u, s')" and "isInitialized (dataCache s)"
  shows "storedMode a s' = Some (pi_mode (determinePollingMode a t (dataCache s')))"
proof -
  from assms(1) obtain r1 s1 where p1: "pollDataType n a Positions s = Some (r1, s1)"
    by (auto simp: initializeAccountPolling.simps split: option.splits)
  have i1: "isInitialized (dataCache s1)" using preserved(1) [OF p1] assms(2) by simp
  show ?thesis
  proof (cases r1)
    case Threw
    with assms(1) p1 have "schedulePolling a s1 = (Returned u, s')"
      by (simp add: initializeAccountPolling.simps)
    from schedulePolling_stored [OF this i1] show ?thesis .
  next
    case (Returned ok1)
    with assms(1) p1 obtain r2 s2 where p2: "pollDataType n a Orders s1 = Some (r2, s2)"
      and sp: "schedulePolling a s2 = (Returned u, s')"
      by (auto simp: initializeAccountPolling.simps split: option.splits)
    have i2: "isInitialized (dataCache s2)" using preserved(1) [OF p2] i1 by simp
    from schedulePolling_stored [OF sp i2] show ?thesis .
  qed
qed

lemma restart_stored:
  assumes "restartAccountPolling n a s = Some (Returned u, s')" and "isInitialized (dataCache s)"
  shows "storedMode a s' = Some (pi_mode (determinePollingMode a t (dataCache s')))"
proof -
  from assms(1) have i: "initializeAccountPolling n a (clearAccountTimers a s) = Some (Returned u, s')"
    by (simp add: restartAccountPolling.simps)
  have "isInitialized (dataCache (clearAccountTimers a s))"
    using assms(2) by (simp add: clearAccountTimers_frame)
  with i show ?thesis by (rule initialize_stored)
qed

text \<open>
  C1. The mode \<open>determinePollingMode\<close> computes is a function of the cached counts
  alone (a missing row counts as zero): IDLE when both are zero, CRITICAL when there
  are more than 2 open positions or more than 3 working orders, ACTIVE otherwise. And
  when a poll succeeds, the mode stored for the account is that function of the
  counts then cached. This holds with no exception for a manual override: a
  successful poll brings a forced mode back to the data-derived one. The poll is
  taken by itself: a background enrichment of orders that writes the cache while the
  poll is under way is not part of it.
\<close>

theorem mode_follows_counts:
  assumes "pollDataType n a k s = Some (Returned True, s')"
  shows "storedMode a s' = Some (pi_mode (determinePollingMode a t (dataCache s'))) \<and>
         pi_mode (determinePollingMode a t c) =
           (if pi_openPositions (determinePollingMode a t c) = 0 \<and>
               pi_workingOrders (determinePollingMode a t c) = 0
            then IDLE
            else if pi_openPositions (determinePollingMode a t c) > 2 \<or>
                    pi_workingOrders (determinePollingMode a t c) > 3
            then CRITICAL else ACTIVE) \<and>
         pi_openPositions (determinePollingMode a t c) =
           (case getCachedPositions a t c of None \<Rightarrow> 0 | Some p \<Rightarrow> openPositionsCount p) \<and>
         pi_workingOrders (determinePollingMode a t c) =
           (case getCachedOrders a t c of None \<Rightarrow> 0 | Some p \<Rightarrow> workingOrdersCount p)"
proof -
  have "storedMode a s' = Some (pi_mode (determinePollingMode a t (dataCache s')))"
  proof (cases n)
    case 0
    with assms show ?thesis by simp
  next
    case (Suc n')
    show ?thesis
    proof (cases "feed s")
      case Nil
      with assms Suc show ?thesis by simp
    next
      case (Cons f answers)
      show ?thesis
      proof (cases f)
        case (Failed elapsed rateLimit)
        with assms Suc Cons show ?thesis
          by (auto simp: Let_def split: if_splits option.splits completion.splits)
      next
        case (Fetched elapsed b)
        let ?s1 = "s\<lparr> feed := answers, clockNow := clockNow s + elapsed \<rparr>"
        obtain cr s2 where cf: "cacheFetched a k b ?s1 = (cr, s2)" by (cases "cacheFetched a k b ?s1")
        from assms Suc Cons Fetched cf obtain v where
          c: "checkPollingModeChange n' a s2 = Some (Returned v, s')"
          by (auto simp: Let_def split: option.splits completion.splits)
        show ?thesis
        proof (cases "getPollingState a (dataCache s2)")
          case None
          with c show ?thesis by (simp add: checkPollingModeChange.simps)
        next
          case (Some currentState)
          then have init: "isInitialized (dataCache s2)"
            by (simp add: getPollingState_def split: if_splits)
          let ?info = "determinePollingMode a (clockNow s2) (dataCache s2)"
          show ?thesis
          proof (cases "current_mode currentState \<noteq> pi_mode ?info")
            case False
            with c Some have e: "s' = s2" by (simp add: checkPollingModeChange.simps Let_def)
            have "pi_mode (determinePollingMode a t (dataCache s2)) = pi_mode ?info"
              by (rule determine_mode_frame) simp_all
            with False Some show ?thesis unfolding e storedMode_def by simp
          next
            case True
            show ?thesis
            proof (cases "updatePollingState a (pi_mode ?info) (pi_reason ?info) (clockNow s2) (dataCache s2)")
              case (Inl e)
              with c Some True show ?thesis by (simp add: checkPollingModeChange.simps Let_def)
            next
              case (Inr c3)
              with c Some True have r: "restartAccountPolling n' a (s2\<lparr> dataCache := c3 \<rparr>) = Some (Returned v, s')"
                by (simp add: checkPollingModeChange.simps Let_def)
              have "isInitialized (dataCache (s2\<lparr> dataCache := c3 \<rparr>))"
                using updatePollingState_written(2) [OF Inr init] by simp
              with r show ?thesis by (rule restart_stored)
            qed
          qed
        qed
      qed
    qed
  qed
  then show ?thesis by (simp add: determine_mode_cases)
qed

text \<open>Whatever mode is forced, the mode stored when the override returns is the data-derived one.\<close>

lemma forcePollingMode_stored:
  assumes "forcePollingMode n a m reason' durationMs s = Some (Returned u, s')"
      and "isInitialized (dataCache s)"
  shows "storedMode a s' = Some (pi_mode (determinePollingMode a t (dataCache s')))"
proof -
  let ?why = "UserReason (case reason' of None \<Rightarrow> ''User override'' | Some t \<Rightarrow> t)"
  let ?d = "case durationMs of None \<Rightarrow> 10 * 60 * 1000 | Some d \<Rightarrow> d"
  from assms(1) obtain c v s1 where
    w: "updatePollingState a m ?why (clockNow s) (dataCache s) = Inr c" and
    r: "restartAccountPolling n a (s\<lparr> dataCache := c \<rparr>) = Some (Returned v, s1)" and
    e: "dataCache s' = dataCache s1"
    by (auto simp: forcePollingMode_def Let_def split: sum.splits option.splits completion.splits if_splits)
  have "isInitialized (dataCache (s\<lparr> dataCache := c \<rparr>))"
    using updatePollingState_written(2) [OF w assms(2)] by simp
  from restart_stored [OF r this] show ?thesis by (simp add: storedMode_def e)
qed

text \<open>
  An override for an account that has no row in \<open>accounts_cache\<close> throws at its
  first write, and nothing is changed.
\<close>

lemma forcePollingMode_unknown_account:
  assumes "isInitialized (dataCache s)" and "accounts_cache (dataCache s) a = None"
  shows "forcePollingMode n a m reason' durationMs s = Some (Threw, s)"
  using assms by (simp add: forcePollingMode_def updatePollingState_def Let_def)

text \<open>With no orders in the answer, the cached list is empty when \<open>getOrders\<close> returns.\<close>

lemma getOrders_empty:
  assumes "isInitialized (dataCache s)"
  shows "fst (getOrders a [] s) = Returned () \<and>
         map_option co_data (getCachedOrders a t (dataCache (snd (getOrders a [] s)))) = Some []"
  using assms
  by (auto simp: getOrders_def enrichOrdersInBackground_def ensureAccount_def cacheOrders_def
      cacheAccountData_def getCachedAccountData_def getCachedOrders_def Let_def
      split: option.splits)

lemmas coll_eval = loaded_def quiet_def busy_def pollDataType.simps checkPollingModeChange.simps
  restartAccountPolling.simps initializeAccountPolling.simps handleRateLimit.simps
  forcePollingMode_def revertForcedMode_def fireReversion_def storedMode_def
  schedulePolling_def clearAccountTimers_def cacheFetched_def ensureAccount_def
  enrichOrdersInBackground_def cacheAccountData_def getCachedAccountData_def
  cacheAccountBalance_def
  startPollingTimer_def clearTimeout_def timerOf_def setTimerOf_def pollingIntervals_def
  getOrders_def basicOrder_def cachePositions_def cacheOrders_def getCachedPositions_def
  getCachedOrders_def updatePollingState_def getPollingState_def determinePollingMode_def
  workingStatus_def orS_def orN_def blankOrder_def initialize_def newDataCache_def
  Let_def split_beta numeral_2_eq_2 numeral_3_eq_3

theorem mode_follows_counts_witness:
  "\<exists>s'. pollDataType 2 1 Positions (loaded [Fetched 40 busy, Fetched 40 busy, Fetched 40 busy]) = Some (Returned True, s') \<and>
        storedMode 1 s' = Some (pi_mode (determinePollingMode 1 0 (dataCache s'))) \<and>
        pi_mode (determinePollingMode 1 0 (dataCache s')) = ACTIVE"
proof -
  have "map_option (\<lambda>r. (fst r, pi_mode (determinePollingMode 1 0 (dataCache (snd r)))))
          (pollDataType 2 1 Positions (loaded [Fetched 40 busy, Fetched 40 busy, Fetched 40 busy])) =
        Some (Returned True, ACTIVE)"
    by (simp add: coll_eval)
  then obtain s' where
    p: "pollDataType 2 1 Positions (loaded [Fetched 40 busy, Fetched 40 busy, Fetched 40 busy]) = Some (Returned True, s')"
    and m: "pi_mode (determinePollingMode 1 0 (dataCache s')) = ACTIVE"
    by auto
  from mode_follows_counts [OF p, of 0] have
    "storedMode 1 s' = Some (pi_mode (determinePollingMode 1 0 (dataCache s')))" by blast
  with p m show ?thesis by blast
qed

lemma forcePollingMode_reversions:
  assumes "forcePollingMode n a m reason' durationMs s = Some (Returned u, s')"
  shows "reversions s' = reversions s @
           (if (case durationMs of None \<Rightarrow> 10 * 60 * 1000 | Some d \<Rightarrow> d) > 0
            then [(clockNow s' + nat (case durationMs of None \<Rightarrow> 10 * 60 * 1000 | Some d \<Rightarrow> d), a)]
            else [])"
proof -
  let ?why = "UserReason (case reason' of None \<Rightarrow> ''User override'' | Some t \<Rightarrow> t)"
  let ?d = "case durationMs of None \<Rightarrow> 10 * 60 * 1000 | Some d \<Rightarrow> d"
  from assms obtain c v s1 where
    w: "updatePollingState a m ?why (clockNow s) (dataCache s) = Inr c" and
    r: "restartAccountPolling n a (s\<lparr> dataCache := c \<rparr>) = Some (Returned v, s1)" and
    e: "s' = (if ?d > 0 then s1\<lparr> reversions := reversions s1 @ [(clockNow s1 + nat ?d, a)] \<rparr> else s1)"
    by (auto simp: forcePollingMode_def Let_def split: sum.splits option.splits completion.splits)
  have "reversions s1 = reversions s" using preserved(3) [OF r] by simp
  then show ?thesis by (simp add: e)
qed

text \<open>
  C7. A manual override does not hold the mode it sets. On an account with no open
  position and no working order, polled in IDLE mode, an override to CRITICAL through
  the route (its reason and its duration of 10 minutes) writes CRITICAL and restarts
  the polling; the restart polls positions first, that poll finds CRITICAL stored
  where the counts give IDLE, and stores IDLE again. When the override returns, IDLE
  is stored, the account's timers run at the IDLE intervals (positions every 120 s,
  not every 5 s), and the reversion is pending all the same, 10 minutes later.
\<close>

theorem forced_mode_lost:
  "storedMode 1 (loaded [Fetched 40 quiet, Fetched 40 quiet, Fetched 40 quiet, Fetched 40 quiet]) = Some IDLE \<and>
   map_option (\<lambda>r. (fst r, storedMode 1 (snd r), reversions (snd r), clockNow (snd r),
                      timers (snd r) 1, map_option pt_due (pollTimers (snd r) 4)))
     (forcePollingMode 2 1 CRITICAL (Some ''User override via API'') (Some 600000)
        (loaded [Fetched 40 quiet, Fetched 40 quiet, Fetched 40 quiet, Fetched 40 quiet])) =
     Some (Returned (), Some IDLE, [(1600160, 1)], 1000160,
           Some \<lparr> t_balance = Some 3, t_positions = Some 4, t_orders = Some 5 \<rparr>,
           Some (1000160 + pollingIntervals IDLE Positions)) \<and>
   pollingIntervals IDLE Positions = 120000 \<and> pollingIntervals CRITICAL Positions = 5000"
  by (simp add: coll_eval)

end
